theory Spec2Isabelle
  imports Main "HOL-Library.Word"
begin

section \<open>Errors\<close>

text \<open>
  The error values of the two packages (\<^verbatim>\<open>pkg/proxy/redis/decoder.go\<close> and the proxy
  router), together with the errors of the Go standard library that reach the decoder
  (\<^verbatim>\<open>strconv.ErrSyntax\<close>, \<^verbatim>\<open>strconv.ErrRange\<close>, \<^verbatim>\<open>io.EOF\<close>,
  \<^verbatim>\<open>io.ErrUnexpectedEOF\<close>). \<^verbatim>\<open>errors.Trace\<close> only attaches a stack to the
  error it is given; it is the identity here.
\<close>

datatype error =
    ErrBadCRLFEnd
  | ErrBadArrayLen
  | ErrBadArrayLenTooLong
  | ErrBadBulkBytesLen
  | ErrBadBulkBytesLenTooLong
  | ErrBadMultiBulkLen
  | ErrBadMultiBulkContent
  | ErrFailedDecoder
  | ErrBadRespType char
  | ErrSyntax
  | ErrRange
  | EOF
  | ErrUnexpectedEOF
  | ErrClosedRouter
  | ErrInvalidSlotId
  | ErrInvalidMethod

section \<open>The frame decoder (pkg/proxy/redis/decoder.go)\<close>

text \<open>A Go \<^verbatim>\<open>[]byte\<close> is a \<^typ>\<open>char list\<close>; \<^verbatim>\<open>int64\<close> is \<^typ>\<open>64 word\<close>, read by \<^const>\<open>sint\<close>.\<close>

type_synonym int64 = "64 word"

definition CR :: char where
  "CR = CHR 0x0D"

definition LF :: char where
  "LF = CHR 0x0A"

definition MaxBulkBytesLen :: int where
  "MaxBulkBytesLen = 1024 * 1024 * 512"

definition MaxArrayLen :: int where
  "MaxArrayLen = 1024 * 1024"

subsection \<open>strconv.ParseInt (Go standard library), base 10, 64 bits\<close>

text \<open>
  The reference the fast path of \<^verbatim>\<open>Btoi64\<close> is compared with. It follows the library's
  own algorithm: \<^verbatim>\<open>ParseUint\<close> scans the digits from the left and stops at the first
  byte that is not a decimal digit (syntax error) or at the first digit that takes the
  value beyond \<open>2\<^sup>6\<^sup>4 - 1\<close> (range error, value \<open>2\<^sup>6\<^sup>4 - 1\<close>); \<^verbatim>\<open>ParseInt\<close> strips
  one sign, and rejects a magnitude beyond the signed range. The unsigned value is a
  \<^typ>\<open>nat\<close> with the two overflow tests of the library written out.
\<close>

definition isDigit :: "char \<Rightarrow> bool" where
  "isDigit c = (of_char (CHR ''0'') \<le> (of_char c :: nat) \<and> (of_char c :: nat) \<le> of_char (CHR ''9''))"

definition digitVal :: "char \<Rightarrow> nat" where
  "digitVal c = of_char c - of_char (CHR ''0'')"

definition maxUint64 :: nat where
  "maxUint64 = 2 ^ 64 - 1"

fun strconv_ParseUint_loop :: "nat \<Rightarrow> char list \<Rightarrow> error \<times> nat + nat" where
  "strconv_ParseUint_loop n [] = Inr n"
| "strconv_ParseUint_loop n (c # cs) =
     (if \<not> isDigit c then Inl (ErrSyntax, 0)
      else if n \<ge> maxUint64 div 10 + 1 then Inl (ErrRange, maxUint64)
      else let n1 = n * 10 + digitVal c in
        if n1 > maxUint64 then Inl (ErrRange, maxUint64)
        else strconv_ParseUint_loop n1 cs)"

definition strconv_ParseUint :: "char list \<Rightarrow> error \<times> nat + nat" where
  "strconv_ParseUint s = (if s = [] then Inl (ErrSyntax, 0) else strconv_ParseUint_loop 0 s)"

definition strconv_ParseInt_range :: "bool \<Rightarrow> nat \<Rightarrow> error + int64" where
  "strconv_ParseInt_range neg un =
     (if \<not> neg \<and> un \<ge> 2 ^ 63 then Inl ErrRange
      else if neg \<and> un > 2 ^ 63 then Inl ErrRange
      else Inr (if neg then - of_nat un else of_nat un))"

definition strconv_ParseInt :: "char list \<Rightarrow> error + int64" where
  "strconv_ParseInt s =
     (if s = [] then Inl ErrSyntax
      else
        let neg = (hd s = CHR ''-'');
            s1 = (if hd s = CHR ''+'' \<or> hd s = CHR ''-'' then tl s else s)
        in case strconv_ParseUint s1 of
             Inl (err, un) \<Rightarrow>
               if err \<noteq> ErrRange then Inl err else strconv_ParseInt_range neg un
           | Inr un \<Rightarrow> strconv_ParseInt_range neg un)"

subsection \<open>Btoi64\<close>

text \<open>
  The loop of the fast path: \<^verbatim>\<open>for ; i < len(b) && b[i] >= '0' && b[i] <= '9'; i++\<close>,
  with the accumulator an \<^verbatim>\<open>int64\<close> (addition and multiplication wrap). It returns
  the accumulator and the index it stopped at.
\<close>

function Btoi64_loop :: "char list \<Rightarrow> nat \<Rightarrow> int64 \<Rightarrow> int64 \<times> nat" where
  "Btoi64_loop b i n =
     (if i < length b \<and> isDigit (b ! i)
      then Btoi64_loop b (i + 1) (of_nat (digitVal (b ! i)) + n * 10)
      else (n, i))"
  by pat_completeness auto
termination
  by (relation "measure (\<lambda>(b, i, n). length b - i)") auto

declare Btoi64_loop.simps [simp del]

text \<open>
  The fast path, lines 38 to 59: \<open>Some n\<close> when it returns \<open>n\<close>, \<open>None\<close> when control
  falls through to \<^verbatim>\<open>strconv.ParseInt\<close>.
\<close>

definition Btoi64_fast :: "char list \<Rightarrow> int64 option" where
  "Btoi64_fast b =
     (if length b \<noteq> 0 \<and> length b < 10 then
        let neg = (b ! 0 = CHR ''-'');
            i = (if b ! 0 = CHR ''-'' \<or> b ! 0 = CHR ''+'' then 1 else 0)
        in if length b \<noteq> i then
             (case Btoi64_loop b i 0 of
                (n, i') \<Rightarrow> if length b = i' then Some (if neg then - n else n) else None)
           else None
      else None)"

definition Btoi64 :: "char list \<Rightarrow> error + int64" where
  "Btoi64 b =
     (case Btoi64_fast b of
        Some n \<Rightarrow> Inr n
      | None \<Rightarrow> (case strconv_ParseInt b of Inl err \<Rightarrow> Inl err | Inr n \<Rightarrow> Inr n))"

subsection \<open>The buffered reader\<close>

text \<open>
  Modelled from the spec: the package \<^verbatim>\<open>pkg/utils/bufio2\<close> is not among the sources.
  The decoder ``consumes bytes from a buffered byte stream''; the reader's state is the
  input that is still unread, and a read that needs more than is left fails with the
  transport error of the stream (\<^verbatim>\<open>io.EOF\<close>, or \<^verbatim>\<open>io.ErrUnexpectedEOF\<close> when
  \<^verbatim>\<open>ReadFull\<close> got part of what it asked for). The capacity of the buffer is not
  modelled. Every operation returns its result and the reader after it.
\<close>

definition ReadByte :: "char list \<Rightarrow> (error + char) \<times> char list" where
  "ReadByte br = (case br of [] \<Rightarrow> (Inl EOF, []) | c # cs \<Rightarrow> (Inr c, cs))"

definition PeekByte :: "char list \<Rightarrow> (error + char) \<times> char list" where
  "PeekByte br = (case br of [] \<Rightarrow> (Inl EOF, []) | c # cs \<Rightarrow> (Inr c, br))"

definition ReadBytes :: "char \<Rightarrow> char list \<Rightarrow> (error + char list) \<times> char list" where
  "ReadBytes delim br =
     (if delim \<in> set br
      then (Inr (takeWhile (\<lambda>c. c \<noteq> delim) br @ [delim]),
            tl (dropWhile (\<lambda>c. c \<noteq> delim) br))
      else (Inl EOF, []))"

definition ReadSlice :: "char \<Rightarrow> char list \<Rightarrow> (error + char list) \<times> char list" where
  "ReadSlice delim br = ReadBytes delim br"

definition ReadFull :: "nat \<Rightarrow> char list \<Rightarrow> (error + char list) \<times> char list" where
  "ReadFull n br =
     (if length br < n then (Inl (if br = [] then EOF else ErrUnexpectedEOF), [])
      else (Inr (take n br), drop n br))"

subsection \<open>Frames\<close>

text \<open>
  Modelled from the spec: \<^verbatim>\<open>resp.go\<close> (the type \<^verbatim>\<open>Resp\<close>, the type tags and
  \<^verbatim>\<open>NewBulkBytes\<close>) is not among the sources. A frame is a tagged value; the tag is the
  first byte of the frame on the wire (\<open>+\<close>, \<open>-\<close>, \<open>:\<close>, \<open>$\<close>, \<open>*\<close>). \<^verbatim>\<open>Value\<close> and
  \<^verbatim>\<open>Array\<close> are Go slices: \<open>None\<close> is the nil slice (the null bulk string, the null
  array), \<open>Some []\<close> an empty one.
\<close>

datatype Resp = Resp (Type: char) (Value: "char list option") (Array: "Resp list option")

definition TypeString :: char where
  "TypeString = CHR ''+''"

definition TypeError :: char where
  "TypeError = CHR ''-''"

definition TypeInt :: char where
  "TypeInt = CHR '':''"

definition TypeBulkBytes :: char where
  "TypeBulkBytes = CHR ''$''"

definition TypeArray :: char where
  "TypeArray = CHR ''*''"

definition NewBulkBytes :: "char list \<Rightarrow> Resp" where
  "NewBulkBytes v = Resp TypeBulkBytes (Some v) None"

subsection \<open>The decoding functions\<close>

text \<open>
  Each function takes the reader and returns its Go result with the reader after the
  call. A Go result \<^verbatim>\<open>(v, err)\<close> whose value is the zero value whenever \<^verbatim>\<open>err\<close> is
  not nil is a sum: \<open>Inl err\<close> or \<open>Inr v\<close>.
\<close>

definition decodeTextBytes :: "char list \<Rightarrow> (error + char list) \<times> char list" where
  "decodeTextBytes br =
     (case ReadBytes LF br of
        (Inl err, br1) \<Rightarrow> (Inl err, br1)
      | (Inr b, br1) \<Rightarrow>
          let n = int (length b) - 2 in
          if n < 0 \<or> b ! nat n \<noteq> CR then (Inl ErrBadCRLFEnd, br1)
          else (Inr (take (nat n) b), br1))"

definition decodeInt :: "char list \<Rightarrow> (error + int64) \<times> char list" where
  "decodeInt br =
     (case ReadSlice LF br of
        (Inl err, br1) \<Rightarrow> (Inl err, br1)
      | (Inr b, br1) \<Rightarrow>
          let n = int (length b) - 2 in
          if n < 0 \<or> b ! nat n \<noteq> CR then (Inl ErrBadCRLFEnd, br1)
          else (Btoi64 (take (nat n) b), br1))"

definition decodeBulkBytes :: "char list \<Rightarrow> (error + char list option) \<times> char list" where
  "decodeBulkBytes br =
     (case decodeInt br of
        (Inl err, br1) \<Rightarrow> (Inl err, br1)
      | (Inr n, br1) \<Rightarrow>
          if sint n < - 1 then (Inl ErrBadBulkBytesLen, br1)
          else if sint n > MaxBulkBytesLen then (Inl ErrBadBulkBytesLenTooLong, br1)
          else if sint n = - 1 then (Inr None, br1)
          else
            (case ReadFull (nat (sint n) + 2) br1 of
               (Inl err, br2) \<Rightarrow> (Inl err, br2)
             | (Inr b, br2) \<Rightarrow>
                 if b ! nat (sint n) \<noteq> CR \<or> b ! (nat (sint n) + 1) \<noteq> LF
                 then (Inl ErrBadCRLFEnd, br2)
                 else (Inr (Some (take (nat (sint n)) b)), br2)))"

text \<open>
  \<^verbatim>\<open>decodeResp\<close> returns \<^verbatim>\<open>(r, err)\<close>. With a nil error \<^verbatim>\<open>r\<close> is never nil
  (\<^verbatim>\<open>r := &Resp{}\<close> precedes every such return): that is \<open>Inr r\<close>. With an error,
  \<^verbatim>\<open>r\<close> is nil when the tag could not be read or is unknown, and the frame with its tag
  and no content otherwise: that is \<open>Inl (err, r)\<close>.

  \<^verbatim>\<open>decodeArray_loop k array\<close> is the loop of \<^verbatim>\<open>decodeArray\<close> with \<open>k\<close> elements
  still to read and \<open>array\<close> the elements read so far.
\<close>

function decodeResp :: "char list \<Rightarrow> (error \<times> Resp option + Resp) \<times> char list"
  and decodeArray :: "char list \<Rightarrow> (error + Resp list option) \<times> char list"
  and decodeArray_loop :: "nat \<Rightarrow> Resp list \<Rightarrow> char list \<Rightarrow> (error + Resp list) \<times> char list"
where
  "decodeResp br =
     (case ReadByte br of
        (Inl err, br1) \<Rightarrow> (Inl (err, None), br1)
      | (Inr b, br1) \<Rightarrow>
          if b = TypeString \<or> b = TypeError \<or> b = TypeInt then
            (case decodeTextBytes br1 of
               (Inl err, br2) \<Rightarrow> (Inl (err, Some (Resp b None None)), br2)
             | (Inr v, br2) \<Rightarrow> (Inr (Resp b (Some v) None), br2))
          else if b = TypeBulkBytes then
            (case decodeBulkBytes br1 of
               (Inl err, br2) \<Rightarrow> (Inl (err, Some (Resp b None None)), br2)
             | (Inr v, br2) \<Rightarrow> (Inr (Resp b v None), br2))
          else if b = TypeArray then
            (case decodeArray br1 of
               (Inl err, br2) \<Rightarrow> (Inl (err, Some (Resp b None None)), br2)
             | (Inr a, br2) \<Rightarrow> (Inr (Resp b None a), br2))
          else (Inl (ErrBadRespType b, None), br1))"
| "decodeArray br =
     (case decodeInt br of
        (Inl err, br1) \<Rightarrow> (Inl err, br1)
      | (Inr n, br1) \<Rightarrow>
          if sint n < - 1 then (Inl ErrBadArrayLen, br1)
          else if sint n > MaxArrayLen then (Inl ErrBadArrayLenTooLong, br1)
          else if sint n = - 1 then (Inr None, br1)
          else
            (case decodeArray_loop (nat (sint n)) [] br1 of
               (Inl err, br2) \<Rightarrow> (Inl err, br2)
             | (Inr array, br2) \<Rightarrow> (Inr (Some array), br2)))"
| "decodeArray_loop 0 array br = (Inr array, br)"
| "decodeArray_loop (Suc k) array br =
     (case decodeResp br of
        (Inl (err, r), br1) \<Rightarrow> (Inl err, br1)
      | (Inr r, br1) \<Rightarrow> decodeArray_loop k (array @ [r]) br1)"
  by pat_completeness auto

text \<open>
  The recursion is nested: the loop continues on the reader that \<^verbatim>\<open>decodeResp\<close> returns.
  It terminates because no function returns a longer reader than it was given, and reading
  a tag or a length consumes at least one byte.
\<close>

lemma ReadByte_length:
  "ReadByte br = (r, br1) \<Longrightarrow> length br1 \<le> length br"
  by (auto simp: ReadByte_def split: list.splits)

lemma ReadByte_Inr_length:
  "ReadByte br = (Inr b, br1) \<Longrightarrow> length br1 < length br"
  by (auto simp: ReadByte_def split: list.splits)

lemma length_tl_dropWhile_le: "length (tl (dropWhile P xs)) \<le> length xs"
  using length_dropWhile_le [of P xs] by simp

lemma ReadBytes_length:
  "ReadBytes d br = (r, br1) \<Longrightarrow> length br1 \<le> length br"
  using length_tl_dropWhile_le [of "\<lambda>c. c \<noteq> d" br]
  by (auto simp: ReadBytes_def simp del: length_tl split: if_splits)

lemma ReadBytes_Inr_length:
  "ReadBytes d br = (Inr b, br1) \<Longrightarrow> length br1 < length br"
proof -
  assume a: "ReadBytes d br = (Inr b, br1)"
  then have m: "d \<in> set br" and e: "br1 = tl (dropWhile (\<lambda>c. c \<noteq> d) br)"
    by (auto simp: ReadBytes_def split: if_splits)
  from m have "dropWhile (\<lambda>c. c \<noteq> d) br \<noteq> []" by (simp add: dropWhile_eq_Nil_conv)
  then have "length (tl (dropWhile (\<lambda>c. c \<noteq> d) br)) < length (dropWhile (\<lambda>c. c \<noteq> d) br)"
    by (cases "dropWhile (\<lambda>c. c \<noteq> d) br") auto
  with e show ?thesis using length_dropWhile_le [of "\<lambda>c. c \<noteq> d" br] by simp
qed

lemma ReadFull_length:
  "ReadFull n br = (r, br1) \<Longrightarrow> length br1 \<le> length br"
  by (auto simp: ReadFull_def split: if_splits)

lemma decodeTextBytes_length:
  "decodeTextBytes br = (r, br1) \<Longrightarrow> length br1 \<le> length br"
  by (auto simp: decodeTextBytes_def Let_def dest: ReadBytes_length split: prod.splits sum.splits if_splits)

lemma decodeInt_length:
  "decodeInt br = (r, br1) \<Longrightarrow> length br1 \<le> length br"
  by (auto simp: decodeInt_def ReadSlice_def Let_def dest: ReadBytes_length split: prod.splits sum.splits if_splits)

lemma decodeInt_Inr_length:
  "decodeInt br = (Inr n, br1) \<Longrightarrow> length br1 < length br"
  by (auto simp: decodeInt_def ReadSlice_def Let_def dest: ReadBytes_Inr_length split: prod.splits sum.splits if_splits)

lemma decodeBulkBytes_length:
  "decodeBulkBytes br = (r, br1) \<Longrightarrow> length br1 \<le> length br"
  by (auto simp: decodeBulkBytes_def dest!: decodeInt_length ReadFull_length split: prod.splits sum.splits if_splits)

lemma decodeResp_dom_length:
  "decodeResp_decodeArray_decodeArray_loop_dom (Inl br) \<Longrightarrow> length (snd (decodeResp br)) \<le> length br"
  "decodeResp_decodeArray_decodeArray_loop_dom (Inr (Inl br')) \<Longrightarrow> length (snd (decodeArray br')) \<le> length br'"
  "decodeResp_decodeArray_decodeArray_loop_dom (Inr (Inr (k, array, br''))) \<Longrightarrow>
     length (snd (decodeArray_loop k array br'')) \<le> length br''"
proof (induction br and br' and k array br'' rule: decodeResp_decodeArray_decodeArray_loop.pinduct)
  case (1 br)
  obtain r0 br1 where rb: "ReadByte br = (r0, br1)" by (cases "ReadByte br")
  have l1: "length br1 \<le> length br" using rb by (rule ReadByte_length)
  show ?case
  proof (cases r0)
    case (Inl err)
    with rb l1 1(1) show ?thesis by (simp add: decodeResp.psimps)
  next
    case (Inr b)
    note rb' = rb [unfolded Inr]
    consider (str) "b = TypeString \<or> b = TypeError \<or> b = TypeInt"
      | (bulk) "\<not> (b = TypeString \<or> b = TypeError \<or> b = TypeInt)" "b = TypeBulkBytes"
      | (arr) "\<not> (b = TypeString \<or> b = TypeError \<or> b = TypeInt)" "b \<noteq> TypeBulkBytes" "b = TypeArray"
      | (other) "\<not> (b = TypeString \<or> b = TypeError \<or> b = TypeInt)" "b \<noteq> TypeBulkBytes" "b \<noteq> TypeArray"
      by blast
    then show ?thesis
    proof cases
      case str
      obtain r2 br2 where d: "decodeTextBytes br1 = (r2, br2)" by (cases "decodeTextBytes br1")
      from d have "length br2 \<le> length br1" by (rule decodeTextBytes_length)
      with l1 d rb' str 1(1) show ?thesis
        by (cases r2) (simp_all add: decodeResp.psimps)
    next
      case bulk
      obtain r2 br2 where d: "decodeBulkBytes br1 = (r2, br2)" by (cases "decodeBulkBytes br1")
      from d have "length br2 \<le> length br1" by (rule decodeBulkBytes_length)
      with l1 d rb' bulk 1(1) show ?thesis
        by (cases r2) (simp_all add: decodeResp.psimps)
    next
      case arr
      obtain r2 br2 where d: "decodeArray br1 = (r2, br2)" by (cases "decodeArray br1")
      have "length (snd (decodeArray br1)) \<le> length br1"
        using "1.IH" [OF rb' [symmetric] refl] arr by simp
      with d have "length br2 \<le> length br1" by simp
      with l1 d rb' arr 1(1) show ?thesis
        by (cases r2) (simp_all add: decodeResp.psimps)
    next
      case other
      with l1 rb' 1(1) show ?thesis by (simp add: decodeResp.psimps)
    qed
  qed
next
  case (2 br)
  obtain r0 br1 where di: "decodeInt br = (r0, br1)" by (cases "decodeInt br")
  have l1: "length br1 \<le> length br" using di by (rule decodeInt_length)
  show ?case
  proof (cases r0)
    case (Inl err)
    with di l1 2(1) show ?thesis by (simp add: decodeArray.psimps)
  next
    case (Inr n)
    note di' = di [unfolded Inr]
    show ?thesis
    proof (cases "sint n < - 1 \<or> sint n > MaxArrayLen \<or> sint n = - 1")
      case True
      with di' l1 2(1) show ?thesis by (auto simp add: decodeArray.psimps)
    next
      case False
      obtain r2 br2 where d: "decodeArray_loop (nat (sint n)) [] br1 = (r2, br2)"
        by (cases "decodeArray_loop (nat (sint n)) [] br1")
      have "length (snd (decodeArray_loop (nat (sint n)) [] br1)) \<le> length br1"
        using "2.IH" [OF di' [symmetric] refl] False by simp
      with d have "length br2 \<le> length br1" by simp
      with l1 d di' False 2(1) show ?thesis
        by (cases r2) (simp_all add: decodeArray.psimps)
    qed
  qed
next
  case (3 array br)
  then show ?case by (simp add: decodeArray_loop.psimps)
next
  case (4 k array br)
  obtain r0 br1 where d: "decodeResp br = (r0, br1)" by (cases "decodeResp br")
  have l1: "length br1 \<le> length br" using "4.IH"(1) d by simp
  show ?case
  proof (cases r0)
    case (Inl e)
    with d l1 4(1) show ?thesis by (simp add: decodeArray_loop.psimps split: prod.splits)
  next
    case (Inr r)
    have "length (snd (decodeArray_loop k (array @ [r]) br1)) \<le> length br1"
      using "4.IH"(2) [OF d [unfolded Inr, symmetric] refl] .
    with d Inr l1 4(1) show ?thesis by (simp add: decodeArray_loop.psimps)
  qed
qed

termination decodeResp
proof (relation "inv_image (less_than <*lex*> less_than)
    (\<lambda>x. case x of Inl br \<Rightarrow> (length br, 0)
         | Inr (Inl br) \<Rightarrow> (length br, 0)
         | Inr (Inr (k, array, br)) \<Rightarrow> (length br, Suc k))", goal_cases)
  case 1
  show ?case by (intro wf_inv_image wf_lex_prod wf_less_than)
next
  case (2 br x y b)
  then show ?case by (auto dest: ReadByte_Inr_length [OF sym])
next
  case (3 br x y n)
  then show ?case by (auto dest: decodeInt_Inr_length [OF sym])
next
  case (4 k array br)
  show ?case by simp
next
  case (5 k array br x y r)
  then show ?case using decodeResp_dom_length(1) [of br]
    by (cases "decodeResp br") auto
qed

declare decodeResp.simps [simp del] decodeArray.simps [simp del]

text \<open>
  The loop of \<^verbatim>\<open>decodeSingleLineMultiBulk\<close>:
  \<^verbatim>\<open>for l, r := 0, 0; r <= len(b); r++\<close>, appending \<^verbatim>\<open>b[l:r]\<close> at each space and at
  the end of the line when it is not empty.
\<close>

function decodeSingleLineMultiBulk_loop :: "char list \<Rightarrow> nat \<Rightarrow> nat \<Rightarrow> Resp list \<Rightarrow> Resp list" where
  "decodeSingleLineMultiBulk_loop b l r multi =
     (if r \<le> length b then
        (if r = length b \<or> b ! r = CHR '' '' then
           decodeSingleLineMultiBulk_loop b (r + 1) (r + 1)
             (if l < r then multi @ [NewBulkBytes (take (r - l) (drop l b))] else multi)
         else decodeSingleLineMultiBulk_loop b l (r + 1) multi)
      else multi)"
  by pat_completeness auto
termination
  by (relation "measure (\<lambda>(b, l, r, multi). Suc (length b) - r)") auto

declare decodeSingleLineMultiBulk_loop.simps [simp del]

definition decodeSingleLineMultiBulk :: "char list \<Rightarrow> (error + Resp list option) \<times> char list" where
  "decodeSingleLineMultiBulk br =
     (case decodeTextBytes br of
        (Inl err, br1) \<Rightarrow> (Inl err, br1)
      | (Inr b, br1) \<Rightarrow>
          if length b = 0 then (Inr None, br1)
          else
            let multi = decodeSingleLineMultiBulk_loop b 0 0 [] in
            if length multi = 0 then (Inl ErrBadMultiBulkLen, br1)
            else (Inr (Some multi), br1))"

text \<open>
  The loop of \<^verbatim>\<open>decodeMultiBulk\<close>, with \<open>k\<close> elements still to read. An element
  that failed to decode ends the loop with its error, whatever was decoded of it.
\<close>

fun decodeMultiBulk_loop :: "nat \<Rightarrow> Resp list \<Rightarrow> char list \<Rightarrow> (error + Resp list) \<times> char list" where
  "decodeMultiBulk_loop 0 multi br = (Inr multi, br)"
| "decodeMultiBulk_loop (Suc k) multi br =
     (case decodeResp br of
        (Inl (err, r), br1) \<Rightarrow> (Inl err, br1)
      | (Inr r, br1) \<Rightarrow>
          if Type r \<noteq> TypeBulkBytes then (Inl ErrBadMultiBulkContent, br1)
          else decodeMultiBulk_loop k (multi @ [r]) br1)"

definition decodeMultiBulk :: "char list \<Rightarrow> (error + Resp list option) \<times> char list" where
  "decodeMultiBulk br =
     (case PeekByte br of
        (Inl err, br0) \<Rightarrow> (Inl err, br0)
      | (Inr b, br0) \<Rightarrow>
          if b \<noteq> TypeArray then decodeSingleLineMultiBulk br0
          else
            (case ReadByte br0 of
               (Inl err, br1) \<Rightarrow> (Inl err, br1)
             | (Inr _, br1) \<Rightarrow>
                 (case decodeInt br1 of
                    (Inl err, br2) \<Rightarrow> (Inl err, br2)
                  | (Inr n, br2) \<Rightarrow>
                      if sint n \<le> 0 then (Inl ErrBadArrayLen, br2)
                      else if sint n > MaxArrayLen then (Inl ErrBadArrayLenTooLong, br2)
                      else
                        (case decodeMultiBulk_loop (nat (sint n)) [] br2 of
                           (Inl err, br3) \<Rightarrow> (Inl err, br3)
                         | (Inr multi, br3) \<Rightarrow> (Inr (Some multi), br3)))))"

subsection \<open>The decoder and its two entry points\<close>

record Decoder =
  br :: "char list"
  Err :: "error option"

definition NewDecoder :: "char list \<Rightarrow> Decoder" where
  "NewDecoder r = \<lparr>br = r, Err = None\<rparr>"

text \<open>
  Both entry points return the Go pair (value, error) and the decoder after the call.
  \<^verbatim>\<open>Decode\<close> returns \<^verbatim>\<open>(r, d.Err)\<close>, where \<^verbatim>\<open>r\<close> is what \<^verbatim>\<open>decodeResp\<close> returned,
  also when it failed.
\<close>

definition Decode :: "Decoder \<Rightarrow> (Resp option \<times> error option) \<times> Decoder" where
  "Decode d =
     (if Err d \<noteq> None then ((None, Some ErrFailedDecoder), d)
      else
        (case decodeResp (br d) of
           (Inl (err, r), br1) \<Rightarrow> ((r, Some err), d\<lparr>br := br1, Err := Some err\<rparr>)
         | (Inr r, br1) \<Rightarrow> ((Some r, Err d), d\<lparr>br := br1\<rparr>)))"

definition DecodeMultiBulk :: "Decoder \<Rightarrow> (Resp list option \<times> error option) \<times> Decoder" where
  "DecodeMultiBulk d =
     (if Err d \<noteq> None then ((None, Some ErrFailedDecoder), d)
      else
        (case decodeMultiBulk (br d) of
           (Inl err, br1) \<Rightarrow> ((None, Some err), d\<lparr>br := br1, Err := Some err\<rparr>)
         | (Inr m, br1) \<Rightarrow> ((m, None), d\<lparr>br := br1\<rparr>)))"

definition DecodeFromBytes :: "char list \<Rightarrow> Resp option \<times> error option" where
  "DecodeFromBytes p = fst (Decode (NewDecoder p))"

definition DecodeMultiBulkFromBytes :: "char list \<Rightarrow> Resp list option \<times> error option" where
  "DecodeMultiBulkFromBytes p = fst (DecodeMultiBulk (NewDecoder p))"

subsection \<open>Sequences of calls on one decoder\<close>

text \<open>
  A caller may use either entry point at each call, and more input may have arrived on
  the stream before a call: \<open>feed bs d\<close> is the decoder once the bytes \<open>bs\<close> have been
  added to its unread input.
\<close>

datatype call = CallDecode | CallDecodeMultiBulk

datatype reply =
    ReplyDecode "Resp option \<times> error option"
  | ReplyDecodeMultiBulk "Resp list option \<times> error option"

fun call_decoder :: "call \<Rightarrow> Decoder \<Rightarrow> reply \<times> Decoder" where
  "call_decoder CallDecode d = (case Decode d of (r, d1) \<Rightarrow> (ReplyDecode r, d1))"
| "call_decoder CallDecodeMultiBulk d =
     (case DecodeMultiBulk d of (r, d1) \<Rightarrow> (ReplyDecodeMultiBulk r, d1))"

fun reply_error :: "reply \<Rightarrow> error option" where
  "reply_error (ReplyDecode r) = snd r"
| "reply_error (ReplyDecodeMultiBulk r) = snd r"

definition feed :: "char list \<Rightarrow> Decoder \<Rightarrow> Decoder" where
  "feed bs d = d\<lparr>br := br d @ bs\<rparr>"

fun run_calls :: "(char list \<times> call) list \<Rightarrow> Decoder \<Rightarrow> reply list" where
  "run_calls [] d = []"
| "run_calls ((bs, c) # cs) d =
     (case call_decoder c (feed bs d) of (r, d1) \<Rightarrow> r # run_calls cs d1)"

text \<open>The reply of a failed decoder: no value, and the error \<^verbatim>\<open>ErrFailedDecoder\<close>.\<close>

fun failed_reply :: "call \<Rightarrow> reply" where
  "failed_reply CallDecode = ReplyDecode (None, Some ErrFailedDecoder)"
| "failed_reply CallDecodeMultiBulk = ReplyDecodeMultiBulk (None, Some ErrFailedDecoder)"

section \<open>The router\<close>

subsection \<open>Descriptors, slots and the effects on the collaborators\<close>

text \<open>
  Modelled from the spec: the package \<^verbatim>\<open>pkg/models\<close> is not among the sources. The
  slot space has \<open>N = 1024\<close> slots. A descriptor carries the slot id, the backend address
  and its group id, the migrate-from address and its group id, the replica groups, the
  forwarding-kind tag and the \<^verbatim>\<open>locked\<close> flag; its field \<^verbatim>\<open>Id\<close> is \<open>SlotId\<close> here. The
  two tags are distinct integer constants.
\<close>

definition MaxSlotNum :: nat where
  "MaxSlotNum = 1024"

record models_Slot =
  SlotId :: int
  Locked :: bool
  BackendAddr :: string
  BackendAddrGroupId :: int
  MigrateFrom :: string
  MigrateFromGroupId :: int
  ForwardMethod :: int
  ReplicaGroups :: "string list list"

definition ForwardSync :: int where
  "ForwardSync = 0"

definition ForwardSemiAsync :: int where
  "ForwardSemiAsync = 1"

text \<open>\<^verbatim>\<open>&models.Slot{Id: i}\<close>: every other field has its zero value.\<close>

definition models_Slot_Id :: "int \<Rightarrow> models_Slot" where
  "models_Slot_Id i =
     \<lparr>SlotId = i, Locked = False, BackendAddr = [], BackendAddrGroupId = 0,
      MigrateFrom = [], MigrateFromGroupId = 0, ForwardMethod = 0, ReplicaGroups = []\<rparr>"

text \<open>
  Modelled from the spec: \<^verbatim>\<open>slots.go\<close>, \<^verbatim>\<open>forward.go\<close> and \<^verbatim>\<open>backend.go\<close> are not
  among the sources. The fields of \<^verbatim>\<open>Slot\<close> are the ones the router reads and writes
  (\<^verbatim>\<open>id\<close> is \<open>slot_id\<close>, \<^verbatim>\<open>method\<close> is \<open>slot_method\<close>, \<^verbatim>\<open>lock.hold\<close> is
  \<open>lock_hold\<close>, \<^verbatim>\<open>backend.bc\<close> is \<open>backend_bc\<close>, and so on). A shared backend
  connection is known by its address; \<open>None\<close> is the nil handle, whose address is the
  empty string and whose release does nothing. The forwarding method is one of two
  strategies.

  What the router does to the pools and to a slot's barrier is recorded, in order, in
  the router's \<open>trace\<close>: \<open>EvBlockAndWait i\<close> is the drain of slot \<open>i\<close>
  (``set lock to held, then wait until refcount drains to zero''), \<open>EvUnblock i\<close> the
  reopening of its barrier, \<open>EvRetain\<close> and \<open>EvRelease\<close> the calls on a pool's handle for
  an address, \<open>EvKeepAlive\<close> the keep-alive of a pool.
\<close>

datatype forwardMethod = forwardSync | forwardSemiAsync

datatype pool = primary | replica

datatype event =
    EvBlockAndWait int
  | EvUnblock int
  | EvRelease pool string
  | EvRetain pool string
  | EvKeepAlive pool

record Slot =
  slot_id :: int
  lock_hold :: bool
  backend_bc :: "string option"
  backend_id :: int
  migrate_bc :: "string option"
  migrate_id :: int
  replicaGroups :: "string list list"
  slot_method :: forwardMethod
  switched :: bool

definition Addr :: "string option \<Rightarrow> string" where
  "Addr bc = (case bc of None \<Rightarrow> [] | Some addr \<Rightarrow> addr)"

definition GetId :: "forwardMethod \<Rightarrow> int" where
  "GetId me = (case me of forwardSync \<Rightarrow> ForwardSync | forwardSemiAsync \<Rightarrow> ForwardSemiAsync)"

definition Release :: "pool \<Rightarrow> string option \<Rightarrow> event list" where
  "Release p bc = (case bc of None \<Rightarrow> [] | Some addr \<Rightarrow> [EvRelease p addr])"

definition blockAndWait :: "Slot \<Rightarrow> Slot \<times> event list" where
  "blockAndWait slot = (slot\<lparr>lock_hold := True\<rparr>, [EvBlockAndWait (slot_id slot)])"

definition unblock :: "Slot \<Rightarrow> Slot \<times> event list" where
  "unblock slot = (slot\<lparr>lock_hold := False\<rparr>, [EvUnblock (slot_id slot)])"

definition snapshot :: "Slot \<Rightarrow> models_Slot" where
  "snapshot slot =
     \<lparr>SlotId = slot_id slot, Locked = lock_hold slot,
      BackendAddr = Addr (backend_bc slot), BackendAddrGroupId = backend_id slot,
      MigrateFrom = Addr (migrate_bc slot), MigrateFromGroupId = migrate_id slot,
      ForwardMethod = GetId (slot_method slot), ReplicaGroups = replicaGroups slot\<rparr>"

subsection \<open>The router and its operations\<close>

text \<open>
  Of the configuration the router reads \<^verbatim>\<open>BackendPrimaryOnly\<close>. The array
  \<^verbatim>\<open>slots [MaxSlotNum]Slot\<close> is a list; an index outside it is Go's run-time panic,
  the result \<open>None\<close> of the operations below. Logging is left out.
\<close>

record Config =
  BackendPrimaryOnly :: bool

record Router =
  slots :: "Slot list"
  config :: Config
  online :: bool
  closed :: bool
  trace :: "event list"

definition NewRouter :: "Config \<Rightarrow> Router" where
  "NewRouter cfg =
     \<lparr>slots = map (\<lambda>i. \<lparr>slot_id = int i, lock_hold = False, backend_bc = None, backend_id = 0,
                        migrate_bc = None, migrate_id = 0, replicaGroups = [],
                        slot_method = forwardSync, switched = False\<rparr>) [0..<MaxSlotNum],
      config = cfg, online = False, closed = False, trace = []\<rparr>"

definition Start :: "Router \<Rightarrow> Router" where
  "Start s = (if closed s then s else s\<lparr>online := True\<rparr>)"

definition isOnline :: "Router \<Rightarrow> bool" where
  "isOnline s = (online s \<and> \<not> closed s)"

definition fillSlot :: "Router \<Rightarrow> models_Slot \<Rightarrow> bool \<Rightarrow> forwardMethod option \<Rightarrow> Router option" where
  "fillSlot s m switched' method' =
     (if SlotId m < 0 \<or> int (length (slots s)) \<le> SlotId m then None
      else
        let i = nat (SlotId m);
            (slot1, ev1) = blockAndWait (slots s ! i);
            ev2 = Release primary (backend_bc slot1) @ Release primary (migrate_bc slot1)
                  @ concat (map (\<lambda>g. concat (map (\<lambda>bc. Release replica (Some bc)) g))
                             (replicaGroups slot1));
            slot2 = slot1\<lparr>backend_bc := None, backend_id := 0, migrate_bc := None,
                          migrate_id := 0, replicaGroups := [], switched := switched'\<rparr>;
            (slot3, ev3) =
              (if length (BackendAddr m) \<noteq> 0
               then (slot2\<lparr>backend_bc := Some (BackendAddr m),
                            backend_id := BackendAddrGroupId m\<rparr>,
                     [EvRetain primary (BackendAddr m)])
               else (slot2, []));
            (slot4, ev4) =
              (if length (MigrateFrom m) \<noteq> 0
               then (slot3\<lparr>migrate_bc := Some (MigrateFrom m),
                            migrate_id := MigrateFromGroupId m\<rparr>,
                     [EvRetain primary (MigrateFrom m)])
               else (slot3, []));
            (slot5, ev5) =
              (if \<not> BackendPrimaryOnly (config s)
               then (slot4\<lparr>replicaGroups := filter (\<lambda>g. length g \<noteq> 0) (ReplicaGroups m)\<rparr>,
                     map (EvRetain replica) (concat (ReplicaGroups m)))
               else (slot4, []));
            slot6 = (case method' of None \<Rightarrow> slot5 | Some me \<Rightarrow> slot5\<lparr>slot_method := me\<rparr>);
            (slot7, ev7) = (if \<not> Locked m then unblock slot6 else (slot6, []))
        in Some (s\<lparr>slots := (slots s)[i := slot7],
                   trace := trace s @ ev1 @ ev2 @ ev3 @ ev4 @ ev5 @ ev7\<rparr>))"

text \<open>The loop of \<^verbatim>\<open>Close\<close> over the indices of the slots.\<close>

fun Close_loop :: "nat list \<Rightarrow> Router \<Rightarrow> Router option" where
  "Close_loop [] s = Some s"
| "Close_loop (i # is) s =
     (case fillSlot s (models_Slot_Id (int i)) False None of
        None \<Rightarrow> None
      | Some s1 \<Rightarrow> Close_loop is s1)"

definition Close :: "Router \<Rightarrow> Router option" where
  "Close s =
     (if closed s then Some s
      else Close_loop [0..<length (slots s)] (s\<lparr>closed := True\<rparr>))"

definition GetSlots :: "Router \<Rightarrow> models_Slot list" where
  "GetSlots s = map snapshot (slots s)"

definition HasSwitched :: "Router \<Rightarrow> bool" where
  "HasSwitched s = list_ex switched (slots s)"

text \<open>
  The public operations return Go's \<^verbatim>\<open>error\<close> (\<open>None\<close> is nil) and the router after
  the call.
\<close>

definition FillSlot :: "Router \<Rightarrow> models_Slot \<Rightarrow> (error option \<times> Router) option" where
  "FillSlot s m =
     (if closed s then Some (Some ErrClosedRouter, s)
      else if SlotId m < 0 \<or> SlotId m \<ge> int MaxSlotNum then Some (Some ErrInvalidSlotId, s)
      else if ForwardMethod m = ForwardSync then
        (case fillSlot s m False (Some forwardSync) of
           None \<Rightarrow> None | Some s1 \<Rightarrow> Some (None, s1))
      else if ForwardMethod m = ForwardSemiAsync then
        (case fillSlot s m False (Some forwardSemiAsync) of
           None \<Rightarrow> None | Some s1 \<Rightarrow> Some (None, s1))
      else Some (Some ErrInvalidMethod, s))"

definition KeepAlive :: "Router \<Rightarrow> error option \<times> Router" where
  "KeepAlive s =
     (if closed s then (Some ErrClosedRouter, s)
      else (None, s\<lparr>trace := trace s @ [EvKeepAlive primary, EvKeepAlive replica]\<rparr>))"

subsection \<open>Switching masters\<close>

text \<open>
  \<^verbatim>\<open>redis.InfoCache\<close> is not among the sources: the cache is the function that gives
  the run-id it reports for an address, the empty string when the run-id cannot be
  determined. The Go map \<^verbatim>\<open>masters\<close> yields the empty string for a group it does not
  hold.
\<close>

type_synonym InfoCache = "string \<Rightarrow> string"

definition GetRunId :: "InfoCache \<Rightarrow> string \<Rightarrow> string" where
  "GetRunId cache addr = cache addr"

definition masters_get :: "(int \<rightharpoonup> string) \<Rightarrow> int \<Rightarrow> string" where
  "masters_get masters g = (case masters g of None \<Rightarrow> [] | Some addr \<Rightarrow> addr)"

definition hasSameRunId :: "InfoCache \<Rightarrow> string \<Rightarrow> string \<Rightarrow> bool" where
  "hasSameRunId cache addr1 addr2 =
     (if addr1 \<noteq> addr2 then
        let rid1 = GetRunId cache addr1; rid2 = GetRunId cache addr2
        in rid1 \<noteq> [] \<and> rid1 = rid2
      else True)"

definition trySwitchMaster :: "Router \<Rightarrow> int \<Rightarrow> (int \<rightharpoonup> string) \<Rightarrow> InfoCache \<Rightarrow> Router option" where
  "trySwitchMaster s i masters cache =
     (if i < 0 \<or> int (length (slots s)) \<le> i then None
      else
        let m = snapshot (slots s ! nat i);
            addr = masters_get masters (BackendAddrGroupId m);
            (m1, switched1) =
              (if addr \<noteq> [] \<and> \<not> hasSameRunId cache addr (BackendAddr m)
               then (m\<lparr>BackendAddr := addr\<rparr>, True) else (m, False));
            addr' = masters_get masters (MigrateFromGroupId m1);
            (m2, switched2) =
              (if addr' \<noteq> [] \<and> \<not> hasSameRunId cache addr' (MigrateFrom m1)
               then (m1\<lparr>MigrateFrom := addr'\<rparr>, True) else (m1, switched1))
        in if switched2 then fillSlot s m2 True None else Some s)"

fun SwitchMasters_loop :: "nat list \<Rightarrow> (int \<rightharpoonup> string) \<Rightarrow> InfoCache \<Rightarrow> Router \<Rightarrow> Router option" where
  "SwitchMasters_loop [] masters cache s = Some s"
| "SwitchMasters_loop (i # is) masters cache s =
     (case trySwitchMaster s (int i) masters cache of
        None \<Rightarrow> None
      | Some s1 \<Rightarrow> SwitchMasters_loop is masters cache s1)"

definition SwitchMasters :: "InfoCache \<Rightarrow> Router \<Rightarrow> (int \<rightharpoonup> string) \<Rightarrow> (error option \<times> Router) option" where
  "SwitchMasters cache s masters =
     (if closed s then Some (Some ErrClosedRouter, s)
      else
        (case SwitchMasters_loop [0..<length (slots s)] masters cache s of
           None \<Rightarrow> None
         | Some s1 \<Rightarrow> Some (None, s1)))"

subsection \<open>Dispatch\<close>

text \<open>
  \<^verbatim>\<open>Hash\<close>, \<^verbatim>\<open>getHashKey\<close> (\<^verbatim>\<open>mapper.go\<close>) and the slot's \<^verbatim>\<open>forward\<close>
  (\<^verbatim>\<open>slots.go\<close>) are not among the sources; they are parameters. \<^verbatim>\<open>Hash\<close> returns a
  \<^verbatim>\<open>uint32\<close>; \<^verbatim>\<open>forward\<close> is given the slot, the request and the hash key, and
  returns its error and the slot after it. Of a request, dispatch reads \<^verbatim>\<open>Multi\<close> and
  \<^verbatim>\<open>OpStr\<close>.
\<close>

record Request =
  Multi :: "Resp list"
  OpStr :: string

definition dispatch ::
  "(char list \<Rightarrow> 32 word) \<Rightarrow> (Resp list \<Rightarrow> string \<Rightarrow> char list) \<Rightarrow>
   (Slot \<Rightarrow> Request \<Rightarrow> char list \<Rightarrow> error option \<times> Slot) \<Rightarrow>
   Router \<Rightarrow> Request \<Rightarrow> (error option \<times> Router) option" where
  "dispatch Hash getHashKey forward s r =
     (let hkey = getHashKey (Multi r) (OpStr r);
          i = unat (Hash hkey mod of_nat MaxSlotNum)
      in if length (slots s) \<le> i then None
         else case forward (slots s ! i) r hkey of
                (err, slot1) \<Rightarrow> Some (err, s\<lparr>slots := (slots s)[i := slot1]\<rparr>))"

subsection \<open>Well-formed routers and runs of the operations\<close>

text \<open>
  What \<^verbatim>\<open>NewRouter\<close> establishes: there are \<open>MaxSlotNum\<close> slots, and the slot at index
  \<open>i\<close> has id \<open>i\<close>.
\<close>

definition Router_inv :: "Router \<Rightarrow> bool" where
  "Router_inv s = (map slot_id (slots s) = map int [0..<MaxSlotNum])"

text \<open>The operations that take the router's lock for writing, and keep-alive.\<close>

datatype op =
    OpStart
  | OpClose
  | OpFillSlot models_Slot
  | OpSwitchMasters InfoCache "int \<rightharpoonup> string"
  | OpKeepAlive

fun apply_op :: "op \<Rightarrow> Router \<Rightarrow> Router option" where
  "apply_op OpStart s = Some (Start s)"
| "apply_op OpClose s = Close s"
| "apply_op (OpFillSlot m) s = map_option snd (FillSlot s m)"
| "apply_op (OpSwitchMasters cache masters) s = map_option snd (SwitchMasters cache s masters)"
| "apply_op OpKeepAlive s = Some (snd (KeepAlive s))"

fun run_ops :: "op list \<Rightarrow> Router \<Rightarrow> Router option" where
  "run_ops [] s = Some s"
| "run_ops (x # xs) s = (case apply_op x s of None \<Rightarrow> None | Some s1 \<Rightarrow> run_ops xs s1)"

subsection \<open>The vocabulary of the statements\<close>

text \<open>
  The slot that \<^verbatim>\<open>fillSlot\<close> leaves behind, as a function of the slot before, the
  descriptor and the two other arguments.
\<close>

definition filled_slot :: "Config \<Rightarrow> Slot \<Rightarrow> models_Slot \<Rightarrow> bool \<Rightarrow> forwardMethod option \<Rightarrow> Slot" where
  "filled_slot cfg slot m sw me =
     \<lparr>slot_id = slot_id slot, lock_hold = Locked m,
      backend_bc = (if BackendAddr m = [] then None else Some (BackendAddr m)),
      backend_id = (if BackendAddr m = [] then 0 else BackendAddrGroupId m),
      migrate_bc = (if MigrateFrom m = [] then None else Some (MigrateFrom m)),
      migrate_id = (if MigrateFrom m = [] then 0 else MigrateFromGroupId m),
      replicaGroups = (if BackendPrimaryOnly cfg then [] else filter (\<lambda>g. g \<noteq> []) (ReplicaGroups m)),
      slot_method = (case me of None \<Rightarrow> slot_method slot | Some x \<Rightarrow> x),
      switched = sw\<rparr>"

text \<open>
  A master switch looks at a slot's backend group and at its migrate-from group. For one
  of them, with \<open>new\<close> the address the map gives and \<open>cur\<close> the address the slot holds:
  the group asks for no change when the map gives no address, or the same address, or a
  different address whose run-id is known and is the run-id of the current address.
  Otherwise a switch is needed: the address is new, and its run-id is unknown or differs
  from the run-id of the current address.
\<close>

definition keeps_addr :: "InfoCache \<Rightarrow> string \<Rightarrow> string \<Rightarrow> bool" where
  "keeps_addr cache new cur =
     (new = [] \<or> new = cur \<or> (GetRunId cache new \<noteq> [] \<and> GetRunId cache new = GetRunId cache cur))"

definition switch_needed :: "InfoCache \<Rightarrow> string \<Rightarrow> string \<Rightarrow> bool" where
  "switch_needed cache new cur =
     (new \<noteq> [] \<and> new \<noteq> cur \<and> (GetRunId cache new = [] \<or> GetRunId cache new \<noteq> GetRunId cache cur))"

definition keeps_slot :: "InfoCache \<Rightarrow> (int \<rightharpoonup> string) \<Rightarrow> Slot \<Rightarrow> bool" where
  "keeps_slot cache masters slot =
     (keeps_addr cache (masters_get masters (backend_id slot)) (Addr (backend_bc slot))
      \<and> keeps_addr cache (masters_get masters (migrate_id slot)) (Addr (migrate_bc slot)))"

text \<open>
  The descriptor a master switch re-fills a slot with (its snapshot, with the addresses
  that changed), and the slot after the switch.
\<close>

definition switch_descriptor :: "InfoCache \<Rightarrow> (int \<rightharpoonup> string) \<Rightarrow> Slot \<Rightarrow> models_Slot" where
  "switch_descriptor cache masters slot =
     (snapshot slot)
       \<lparr>BackendAddr :=
          (if keeps_addr cache (masters_get masters (backend_id slot)) (Addr (backend_bc slot))
           then Addr (backend_bc slot) else masters_get masters (backend_id slot)),
        MigrateFrom :=
          (if keeps_addr cache (masters_get masters (migrate_id slot)) (Addr (migrate_bc slot))
           then Addr (migrate_bc slot) else masters_get masters (migrate_id slot))\<rparr>"

definition switched_slot :: "Config \<Rightarrow> InfoCache \<Rightarrow> (int \<rightharpoonup> string) \<Rightarrow> Slot \<Rightarrow> Slot" where
  "switched_slot cfg cache masters slot =
     (if keeps_slot cache masters slot then slot
      else filled_slot cfg slot (switch_descriptor cache masters slot) True None)"

text \<open>The value of a digit string read from the left, starting from \<open>n\<close>.\<close>

definition decVal :: "nat \<Rightarrow> char list \<Rightarrow> nat" where
  "decVal n ds = foldl (\<lambda>a c. a * 10 + digitVal c) n ds"

text \<open>The slot at index \<open>j\<close> after a public operation, when the operation returned.\<close>

definition slot_after :: "(error option \<times> Router) option \<Rightarrow> nat \<Rightarrow> Slot option" where
  "slot_after res j = (case res of None \<Rightarrow> None | Some (err, s1) \<Rightarrow> Some (slots s1 ! j))"

subsection \<open>A router and its collaborators, for the concrete cases\<close>

text \<open>
  A new router whose slot 0 has been filled with the backend \<open>10.0.0.1\<close> of group 1;
  three info caches: one that knows no run-id, one that reports the same run-id for every
  address, one that reports a different run-id for \<open>10.0.0.1\<close> than for any other address;
  and, for dispatch, a hash function, a hash-key function (the second element of the
  request), a forward operation that succeeds and leaves the slot as it is, and the
  request \<open>GET foo\<close>.
\<close>

definition example_config :: Config where
  "example_config = \<lparr>BackendPrimaryOnly = False\<rparr>"

definition example_descriptor :: models_Slot where
  "example_descriptor =
     \<lparr>SlotId = 0, Locked = False, BackendAddr = ''10.0.0.1'', BackendAddrGroupId = 1,
      MigrateFrom = [], MigrateFromGroupId = 0, ForwardMethod = ForwardSync, ReplicaGroups = []\<rparr>"

definition example_router :: Router where
  "example_router = snd (the (FillSlot (NewRouter example_config) example_descriptor))"

definition unknown_cache :: InfoCache where
  "unknown_cache addr = []"

definition restarted_cache :: InfoCache where
  "restarted_cache addr = ''f3a9''"

definition failover_cache :: InfoCache where
  "failover_cache addr = (if addr = ''10.0.0.1'' then ''run-a'' else ''run-b'')"

definition example_Hash :: "char list \<Rightarrow> 32 word" where
  "example_Hash key = of_nat (length key) + 2050"

definition example_getHashKey :: "Resp list \<Rightarrow> string \<Rightarrow> char list" where
  "example_getHashKey multi opstr =
     (if 1 < length multi then (case Value (multi ! 1) of None \<Rightarrow> [] | Some v \<Rightarrow> v) else [])"

definition example_forward :: "Slot \<Rightarrow> Request \<Rightarrow> char list \<Rightarrow> error option \<times> Slot" where
  "example_forward slot r hkey = (None, slot)"

definition example_request :: Request where
  "example_request = \<lparr>Multi = [NewBulkBytes ''GET'', NewBulkBytes ''foo''], OpStr = ''GET''\<rparr>"

section \<open>Properties of the decoder\<close>

subsection \<open>The fast path of Btoi64 against strconv.ParseInt\<close>

lemma decVal_Nil [simp]: "decVal n [] = n"
  by (simp add: decVal_def)

lemma decVal_Cons [simp]: "decVal n (c # cs) = decVal (n * 10 + digitVal c) cs"
  by (simp add: decVal_def)

lemma digitVal_le_9: "isDigit c \<Longrightarrow> digitVal c \<le> 9"
  by (auto simp: isDigit_def digitVal_def)

lemma Btoi64_loop_digits:
  "i \<le> length b \<Longrightarrow> list_all isDigit (drop i b) \<Longrightarrow>
   Btoi64_loop b i (of_nat n) = (of_nat (decVal n (drop i b)), length b)"
proof (induction "length b - i" arbitrary: i n)
  case 0
  then show ?case by (subst Btoi64_loop.simps) simp
next
  case (Suc k)
  then have lt: "i < length b" by simp
  then have d: "drop i b = b ! i # drop (Suc i) b" by (simp add: Cons_nth_drop_Suc)
  with Suc.prems have dg: "isDigit (b ! i)" and rest: "list_all isDigit (drop (Suc i) b)"
    by simp_all
  have e: "(of_nat (digitVal (b ! i)) + of_nat n * 10 :: int64) = of_nat (n * 10 + digitVal (b ! i))"
    by simp
  have k: "k = length b - Suc i" using Suc.hyps(2) by simp
  have sl: "Suc i \<le> length b" using lt by simp
  have "Btoi64_loop b i (of_nat n)
        = Btoi64_loop b (i + 1) (of_nat (digitVal (b ! i)) + of_nat n * 10)"
    by (subst Btoi64_loop.simps) (simp add: lt dg)
  also have "\<dots> = Btoi64_loop b (Suc i) (of_nat (n * 10 + digitVal (b ! i)))"
    by (simp only: e Suc_eq_plus1)
  also have "\<dots> = (of_nat (decVal (n * 10 + digitVal (b ! i)) (drop (Suc i) b)), length b)"
    by (rule Suc.hyps(1) [OF k sl rest])
  also have "\<dots> = (of_nat (decVal n (drop i b)), length b)"
    by (simp only: d decVal_Cons)
  finally show ?case .
qed

lemma Btoi64_loop_index:
  "i \<le> length b \<Longrightarrow> snd (Btoi64_loop b i n) = length b \<Longrightarrow> list_all isDigit (drop i b)"
proof (induction "length b - i" arbitrary: i n)
  case 0
  then show ?case by simp
next
  case (Suc k)
  then have lt: "i < length b" by simp
  then have d: "drop i b = b ! i # drop (Suc i) b" by (simp add: Cons_nth_drop_Suc)
  have k: "k = length b - Suc i" using Suc.hyps(2) by simp
  have sl: "Suc i \<le> length b" using lt by simp
  show ?case
  proof (cases "isDigit (b ! i)")
    case True
    have "Btoi64_loop b i n = Btoi64_loop b (Suc i) (of_nat (digitVal (b ! i)) + n * 10)"
      by (subst Btoi64_loop.simps) (simp add: lt True)
    with Suc.prems(2)
    have "snd (Btoi64_loop b (Suc i) (of_nat (digitVal (b ! i)) + n * 10)) = length b"
      by simp
    then have "list_all isDigit (drop (Suc i) b)"
      by (rule Suc.hyps(1) [OF k sl])
    with True d show ?thesis by simp
  next
    case False
    then have "Btoi64_loop b i n = (n, i)" by (subst Btoi64_loop.simps) simp
    with Suc.prems(2) lt show ?thesis by simp
  qed
qed

lemma ParseUint_loop_small:
  "list_all isDigit ds \<Longrightarrow> n < 10 ^ k \<Longrightarrow> k + length ds \<le> 9 \<Longrightarrow>
   strconv_ParseUint_loop n ds = Inr (decVal n ds) \<and> decVal n ds < 10 ^ (k + length ds)"
proof (induction ds arbitrary: n k)
  case Nil
  then show ?case by simp
next
  case (Cons c cs)
  from Cons.prems have dc: "isDigit c" and dcs: "list_all isDigit cs" by simp_all
  have k8: "k \<le> 8" using Cons.prems(3) by simp
  have "(10::nat) ^ k \<le> 10 ^ 8" using k8 by (intro power_increasing) simp_all
  with Cons.prems(2) have n8: "n < 10 ^ 8" by simp
  have s: "n * 10 + digitVal c < 10 ^ Suc k"
    using Cons.prems(2) digitVal_le_9 [OF dc] by simp
  have "n * 10 + digitVal c < 10 ^ 9" using n8 digitVal_le_9 [OF dc] by simp
  then have b1: "\<not> maxUint64 < n * 10 + digitVal c" by (simp add: maxUint64_def)
  have b0: "\<not> maxUint64 div 10 + 1 \<le> n" using n8 by (simp add: maxUint64_def)
  have ih: "strconv_ParseUint_loop (n * 10 + digitVal c) cs = Inr (decVal (n * 10 + digitVal c) cs)
      \<and> decVal (n * 10 + digitVal c) cs < 10 ^ (Suc k + length cs)"
    using Cons.IH [OF dcs s] Cons.prems(3) by simp
  show ?case using dc b0 b1 ih by (simp add: Let_def)
qed

lemma Btoi64_fast_Some:
  assumes "Btoi64_fast b = Some n"
  shows "strconv_ParseInt b = Inr n"
proof -
  define i :: nat where "i = (if b ! 0 = CHR ''-'' \<or> b ! 0 = CHR ''+'' then 1 else 0)"
  define neg where "neg = (b ! 0 = CHR ''-'')"
  from assms have len: "b \<noteq> []" "length b < 10"
    by (auto simp: Btoi64_fast_def split: if_splits)
  from assms len have li: "length b \<noteq> i"
    by (auto simp: Btoi64_fast_def i_def Let_def split: if_splits)
  have ile: "i \<le> length b" using len by (cases b) (simp_all add: i_def)
  obtain m i' where lp: "Btoi64_loop b i 0 = (m, i')" by (cases "Btoi64_loop b i 0")
  from assms len li lp have i': "i' = length b" and n: "n = (if neg then - m else m)"
    by (auto simp: Btoi64_fast_def i_def neg_def Let_def split: if_splits)
  have dg: "list_all isDigit (drop i b)"
    using Btoi64_loop_index [OF ile, of 0] lp i' by simp
  have "Btoi64_loop b i (of_nat 0) = (of_nat (decVal 0 (drop i b)), length b)"
    using Btoi64_loop_digits [OF ile dg] .
  with lp have m: "m = of_nat (decVal 0 (drop i b))" by simp
  have pu: "strconv_ParseUint_loop 0 (drop i b) = Inr (decVal 0 (drop i b))
      \<and> decVal 0 (drop i b) < 10 ^ (0 + length (drop i b))"
    using ParseUint_loop_small [OF dg, of 0 0] len by simp
  have "(10::nat) ^ length (drop i b) \<le> 10 ^ 9"
    using len by (intro power_increasing) simp_all
  with pu have small: "decVal 0 (drop i b) < 10 ^ 9" by simp
  have ne: "drop i b \<noteq> []" using li ile by simp
  have hd0: "hd b = b ! 0" using len by (simp add: hd_conv_nth)
  have s1: "(if hd b = CHR ''+'' \<or> hd b = CHR ''-'' then tl b else b) = drop i b"
    using hd0 by (auto simp: i_def drop_Suc)
  have "strconv_ParseInt b = strconv_ParseInt_range neg (decVal 0 (drop i b))"
    using len ne pu hd0 s1 by (simp add: strconv_ParseInt_def strconv_ParseUint_def neg_def Let_def)
  also have "\<dots> = Inr (if neg then - of_nat (decVal 0 (drop i b)) else of_nat (decVal 0 (drop i b)))"
    using small by (simp add: strconv_ParseInt_range_def)
  finally show ?thesis using n m by simp
qed

text \<open>
  Claim C9. For every byte string, \<^verbatim>\<open>Btoi64\<close> returns what base-10, 64-bit
  \<^verbatim>\<open>strconv.ParseInt\<close> returns: the same value when parsing succeeds, and an error (the
  library's own) on exactly the inputs on which the library fails. So the fast path for
  fewer than ten bytes never returns a value the library would not.
\<close>

theorem Btoi64_refines_ParseInt: "Btoi64 b = strconv_ParseInt b"
proof (cases "Btoi64_fast b")
  case None
  then show ?thesis by (simp add: Btoi64_def split: sum.splits)
next
  case (Some n)
  then show ?thesis using Btoi64_fast_Some [OF Some] by (simp add: Btoi64_def)
qed

theorem Btoi64_refines_ParseInt_witness:
  "strconv_ParseInt ''-12'' = Inr (- 12) \<and> strconv_ParseInt ''+'' = Inl ErrSyntax
   \<and> Btoi64 ''9223372036854775808'' = Inl ErrRange"
proof -
  have "Btoi64 ''-12'' = Inr (- 12)" by code_simp
  moreover have "Btoi64 ''+'' = Inl ErrSyntax" by code_simp
  moreover have "strconv_ParseInt ''9223372036854775808'' = Inl ErrRange"
    by (simp add: strconv_ParseInt_def strconv_ParseUint_def isDigit_def digitVal_def
        maxUint64_def Let_def strconv_ParseInt_range_def)
  ultimately show ?thesis
    using Btoi64_refines_ParseInt [of "''-12''"] Btoi64_refines_ParseInt [of "''+''"]
      Btoi64_refines_ParseInt [of "''9223372036854775808''"]
    by simp
qed

subsection \<open>Reading a line\<close>

lemma CR_neq_LF [simp]: "CR \<noteq> LF" "LF \<noteq> CR"
  by (simp_all add: CR_def LF_def)

lemma ReadBytes_line:
  "LF \<notin> set l \<Longrightarrow> ReadBytes LF (l @ LF # rest) = (Inr (l @ [LF]), rest)"
proof -
  assume a: "LF \<notin> set l"
  then have n: "\<And>x. x \<in> set l \<Longrightarrow> x \<noteq> LF" by blast
  have "takeWhile (\<lambda>c. c \<noteq> LF) (l @ LF # rest) = l"
    using n by (simp add: takeWhile_append2)
  moreover have "dropWhile (\<lambda>c. c \<noteq> LF) (l @ LF # rest) = LF # rest"
    using n by (simp add: dropWhile_append2)
  ultimately show ?thesis by (simp add: ReadBytes_def)
qed

lemma decodeTextBytes_line:
  "LF \<notin> set l \<Longrightarrow> decodeTextBytes (l @ CR # LF # rest) = (Inr l, rest)"
  using ReadBytes_line [of "l @ [CR]" rest]
  by (simp add: decodeTextBytes_def Let_def nth_append)

lemma decodeInt_line:
  "LF \<notin> set l \<Longrightarrow> decodeInt (l @ CR # LF # rest) = (Btoi64 l, rest)"
  using ReadBytes_line [of "l @ [CR]" rest]
  by (simp add: decodeInt_def ReadSlice_def Let_def nth_append)

subsection \<open>The inline fallback of the multi-bulk entry point\<close>

lemma inline_PING:
  "DecodeMultiBulk (NewDecoder (''PING'' @ CR # LF # rest)) =
     ((Some [NewBulkBytes ''PING''], None), \<lparr>br = rest, Err = None\<rparr>)"
proof -
  have l: "LF \<notin> set ''PING''" by (simp add: LF_def)
  have "decodeSingleLineMultiBulk_loop ''PING'' 0 0 [] = [NewBulkBytes ''PING'']"
    by code_simp
  then show ?thesis
    using decodeTextBytes_line [OF l, of rest]
    by (simp add: DecodeMultiBulk_def NewDecoder_def decodeMultiBulk_def PeekByte_def
        TypeArray_def decodeSingleLineMultiBulk_def)
qed

lemma inline_empty:
  "DecodeMultiBulk (NewDecoder (CR # LF # rest)) = ((None, None), \<lparr>br = rest, Err = None\<rparr>)"
  using decodeTextBytes_line [of "[]" rest]
  by (simp add: DecodeMultiBulk_def NewDecoder_def decodeMultiBulk_def PeekByte_def
      TypeArray_def CR_def decodeSingleLineMultiBulk_def)

lemma inline_spaces:
  "DecodeMultiBulk (NewDecoder (''   '' @ CR # LF # rest)) =
     ((None, Some ErrBadMultiBulkLen), \<lparr>br = rest, Err = Some ErrBadMultiBulkLen\<rparr>)"
proof -
  have l: "LF \<notin> set ''   ''" by (simp add: LF_def)
  have "decodeSingleLineMultiBulk_loop ''   '' 0 0 [] = []"
    by code_simp
  then show ?thesis
    using decodeTextBytes_line [OF l, of rest]
    by (simp add: DecodeMultiBulk_def NewDecoder_def decodeMultiBulk_def PeekByte_def
        TypeArray_def decodeSingleLineMultiBulk_def)
qed

text \<open>
  Claim C7. On the multi-bulk entry point, at the start of any input: the bytes
  \<open>PING\r\n\<close> decode to the one-element array of the bulk string \<open>PING\<close>; the bare line
  \<open>\r\n\<close> decodes to the nil result with no error; a line of three spaces fails with
  the error \<^verbatim>\<open>ErrBadMultiBulkLen\<close> (``bad multi-bulk len''), which also makes the
  decoder failed. In each case exactly the line is consumed.
\<close>

theorem DecodeMultiBulk_inline:
  "DecodeMultiBulk (NewDecoder (''PING'' @ CR # LF # rest)) =
     ((Some [NewBulkBytes ''PING''], None), \<lparr>br = rest, Err = None\<rparr>)
   \<and> DecodeMultiBulk (NewDecoder (CR # LF # rest)) =
     ((None, None), \<lparr>br = rest, Err = None\<rparr>)
   \<and> DecodeMultiBulk (NewDecoder (''   '' @ CR # LF # rest)) =
     ((None, Some ErrBadMultiBulkLen), \<lparr>br = rest, Err = Some ErrBadMultiBulkLen\<rparr>)"
  using inline_PING [of rest] inline_empty [of rest] inline_spaces [of rest]
  by (intro conjI)

theorem DecodeMultiBulk_inline_witness:
  "DecodeMultiBulkFromBytes (''PING'' @ [CR, LF]) = (Some [NewBulkBytes ''PING''], None)
   \<and> DecodeMultiBulkFromBytes [CR, LF] = (None, None)
   \<and> DecodeMultiBulkFromBytes (''   '' @ [CR, LF]) = (None, Some ErrBadMultiBulkLen)"
  using DecodeMultiBulk_inline [of "[]"]
  by (simp add: DecodeMultiBulkFromBytes_def)

subsection \<open>Length headers: the limits and the null values\<close>

lemma ReadFull_exact:
  "ReadFull (length p + 2) (p @ CR # LF # rest) = (Inr (p @ [CR, LF]), rest)"
  by (simp add: ReadFull_def)

lemma decodeBulkBytes_header:
  assumes "LF \<notin> set l" and "Btoi64 l = Inr n"
  shows "sint n < - 1 \<Longrightarrow> decodeBulkBytes (l @ CR # LF # rest) = (Inl ErrBadBulkBytesLen, rest)"
    and "sint n > MaxBulkBytesLen \<Longrightarrow>
           decodeBulkBytes (l @ CR # LF # rest) = (Inl ErrBadBulkBytesLenTooLong, rest)"
    and "sint n = - 1 \<Longrightarrow> decodeBulkBytes (l @ CR # LF # rest) = (Inr None, rest)"
  using decodeInt_line [OF assms(1), of rest] assms(2)
  by (simp_all add: decodeBulkBytes_def MaxBulkBytesLen_def)

lemma decodeBulkBytes_payload:
  assumes "LF \<notin> set l" and "Btoi64 l = Inr n"
    and "0 \<le> sint n" and "sint n \<le> MaxBulkBytesLen" and "sint n = int (length p)"
  shows "decodeBulkBytes (l @ CR # LF # p @ CR # LF # rest) = (Inr (Some p), rest)"
proof -
  have n: "nat (sint n) = length p" using assms(5) by simp
  show ?thesis
    using decodeInt_line [OF assms(1), of "p @ CR # LF # rest"] assms(2,3,4) ReadFull_exact [of p rest]
    by (simp add: decodeBulkBytes_def n nth_append)
qed

lemma Type_distinct:
  "TypeBulkBytes \<noteq> TypeString" "TypeBulkBytes \<noteq> TypeError" "TypeBulkBytes \<noteq> TypeInt"
  "TypeArray \<noteq> TypeString" "TypeArray \<noteq> TypeError" "TypeArray \<noteq> TypeInt"
  "TypeArray \<noteq> TypeBulkBytes"
  by (simp_all add: TypeBulkBytes_def TypeArray_def TypeString_def TypeError_def TypeInt_def)

lemma decodeResp_tag:
  "decodeResp (TypeBulkBytes # br1) =
     (case decodeBulkBytes br1 of
        (Inl err, br2) \<Rightarrow> (Inl (err, Some (Resp TypeBulkBytes None None)), br2)
      | (Inr v, br2) \<Rightarrow> (Inr (Resp TypeBulkBytes v None), br2))"
  "decodeResp (TypeArray # br1) =
     (case decodeArray br1 of
        (Inl err, br2) \<Rightarrow> (Inl (err, Some (Resp TypeArray None None)), br2)
      | (Inr a, br2) \<Rightarrow> (Inr (Resp TypeArray None a), br2))"
  by (subst decodeResp.simps, simp add: ReadByte_def Type_distinct)+

lemma decodeArray_header:
  assumes "LF \<notin> set l" and "Btoi64 l = Inr n"
  shows "sint n = - 1 \<Longrightarrow> decodeArray (l @ CR # LF # rest) = (Inr None, rest)"
  using decodeInt_line [OF assms(1), of rest] assms(2)
  by (subst decodeArray.simps) (simp add: MaxArrayLen_def)

text \<open>
  Claim C5, amended. Take a bulk-string frame whose header line declares a length that
  fits in 64 bits, signed: \<^verbatim>\<open>Btoi64\<close> reads it from the line as the \<^verbatim>\<open>int64\<close> \<open>n\<close>. The limit is 512 MiB, 536870912
  bytes. When \<open>n\<close> is exactly the limit and the payload of that many bytes is present,
  followed by its terminator, decoding succeeds and yields the payload. When \<open>n\<close>
  exceeds the limit, decoding fails with \<^verbatim>\<open>ErrBadBulkBytesLenTooLong\<close>; when \<open>n\<close> is
  below \<open>-1\<close>, it fails with \<^verbatim>\<open>ErrBadBulkBytesLen\<close>.
\<close>

theorem bulk_length_limits:
  assumes "LF \<notin> set l" and "Btoi64 l = Inr n"
  shows "MaxBulkBytesLen = 536870912
     \<and> (sint n = MaxBulkBytesLen \<longrightarrow> int (length p) = MaxBulkBytesLen \<longrightarrow>
          Decode (NewDecoder (TypeBulkBytes # l @ CR # LF # p @ CR # LF # rest)) =
            ((Some (Resp TypeBulkBytes (Some p) None), None), \<lparr>br = rest, Err = None\<rparr>))
     \<and> (sint n > MaxBulkBytesLen \<longrightarrow>
          Decode (NewDecoder (TypeBulkBytes # l @ CR # LF # rest)) =
            ((Some (Resp TypeBulkBytes None None), Some ErrBadBulkBytesLenTooLong),
             \<lparr>br = rest, Err = Some ErrBadBulkBytesLenTooLong\<rparr>))
     \<and> (sint n < - 1 \<longrightarrow>
          Decode (NewDecoder (TypeBulkBytes # l @ CR # LF # rest)) =
            ((Some (Resp TypeBulkBytes None None), Some ErrBadBulkBytesLen),
             \<lparr>br = rest, Err = Some ErrBadBulkBytesLen\<rparr>))"
proof (intro conjI impI)
  show "MaxBulkBytesLen = 536870912" by (simp add: MaxBulkBytesLen_def)
next
  assume a: "sint n = MaxBulkBytesLen" "int (length p) = MaxBulkBytesLen"
  then have "0 \<le> sint n" "sint n \<le> MaxBulkBytesLen" "sint n = int (length p)"
    by (simp_all add: MaxBulkBytesLen_def)
  from decodeBulkBytes_payload [OF assms this, of rest]
  show "Decode (NewDecoder (TypeBulkBytes # l @ CR # LF # p @ CR # LF # rest)) =
            ((Some (Resp TypeBulkBytes (Some p) None), None), \<lparr>br = rest, Err = None\<rparr>)"
    by (simp add: Decode_def NewDecoder_def decodeResp_tag)
next
  assume "sint n > MaxBulkBytesLen"
  from decodeBulkBytes_header(2) [OF assms this, of rest]
  show "Decode (NewDecoder (TypeBulkBytes # l @ CR # LF # rest)) =
            ((Some (Resp TypeBulkBytes None None), Some ErrBadBulkBytesLenTooLong),
             \<lparr>br = rest, Err = Some ErrBadBulkBytesLenTooLong\<rparr>)"
    by (simp add: Decode_def NewDecoder_def decodeResp_tag)
next
  assume "sint n < - 1"
  from decodeBulkBytes_header(1) [OF assms this, of rest]
  show "Decode (NewDecoder (TypeBulkBytes # l @ CR # LF # rest)) =
            ((Some (Resp TypeBulkBytes None None), Some ErrBadBulkBytesLen),
             \<lparr>br = rest, Err = Some ErrBadBulkBytesLen\<rparr>)"
    by (simp add: Decode_def NewDecoder_def decodeResp_tag)
qed

theorem bulk_length_limits_witness:
  "Decode (NewDecoder (TypeBulkBytes # ''536870912'' @ CR # LF #
       replicate 536870912 (CHR ''x'') @ CR # LF # [])) =
     ((Some (Resp TypeBulkBytes (Some (replicate 536870912 (CHR ''x''))) None), None),
      \<lparr>br = [], Err = None\<rparr>)
   \<and> Decode (NewDecoder (TypeBulkBytes # ''536870913'' @ CR # LF # [])) =
     ((Some (Resp TypeBulkBytes None None), Some ErrBadBulkBytesLenTooLong),
      \<lparr>br = [], Err = Some ErrBadBulkBytesLenTooLong\<rparr>)
   \<and> Decode (NewDecoder (TypeBulkBytes # ''-2'' @ CR # LF # [])) =
     ((Some (Resp TypeBulkBytes None None), Some ErrBadBulkBytesLen),
      \<lparr>br = [], Err = Some ErrBadBulkBytesLen\<rparr>)"
proof -
  have l1: "LF \<notin> set ''536870912''" and l2: "LF \<notin> set ''536870913''" and l3: "LF \<notin> set ''-2''"
    by (simp_all add: LF_def)
  have b1: "Btoi64 ''536870912'' = Inr 536870912" by code_simp
  have b2: "Btoi64 ''536870913'' = Inr 536870913" by code_simp
  have b3: "Btoi64 ''-2'' = Inr (- 2)" by code_simp
  have s1: "sint (536870912 :: int64) = MaxBulkBytesLen"
    and s2: "sint (536870913 :: int64) > MaxBulkBytesLen"
    and s3: "sint (- 2 :: int64) < - 1"
    by (simp_all add: MaxBulkBytesLen_def)
  have p: "int (length (replicate 536870912 (CHR ''x''))) = MaxBulkBytesLen"
    by (simp add: MaxBulkBytesLen_def)
  show ?thesis
    using bulk_length_limits [OF l1 b1, of "replicate 536870912 (CHR ''x'')" "[]"]
      bulk_length_limits [OF l2 b2, of "[]" "[]"]
      bulk_length_limits [OF l3 b3, of "[]" "[]"] s1 s2 s3 p
    by blast
qed

lemma Btoi64_beyond_int64: "Btoi64 ''9223372036854775808'' = Inl ErrRange"
proof -
  have "Btoi64_fast ''9223372036854775808'' = None" by (simp add: Btoi64_fast_def)
  moreover have "strconv_ParseInt ''9223372036854775808'' = Inl ErrRange"
    by (simp add: strconv_ParseInt_def strconv_ParseUint_def isDigit_def digitVal_def
        maxUint64_def Let_def strconv_ParseInt_range_def)
  ultimately show ?thesis by (simp add: Btoi64_def)
qed

lemma decodeBulkBytes_bad_header:
  assumes "LF \<notin> set l" and "Btoi64 l = Inl err"
  shows "Decode (NewDecoder (TypeBulkBytes # l @ CR # LF # rest)) =
     ((Some (Resp TypeBulkBytes None None), Some err), \<lparr>br = rest, Err = Some err\<rparr>)"
  using decodeInt_line [OF assms(1), of rest] assms(2)
  by (simp add: Decode_def NewDecoder_def decodeResp_tag decodeBulkBytes_def)

text \<open>
  The claim as stated fails for a declared length beyond the 64-bit signed range: the
  header \<open>$9223372036854775808\r\n\<close> declares more than 512 MiB, and decoding fails with
  the range error of \<^verbatim>\<open>strconv.ParseInt\<close>, which \<^verbatim>\<open>decodeInt\<close> returns before the length
  is compared with the limit, not with \<^verbatim>\<open>ErrBadBulkBytesLenTooLong\<close>.
\<close>

theorem bulk_length_beyond_int64_counterexample:
  "Decode (NewDecoder (TypeBulkBytes # ''9223372036854775808'' @ CR # LF # [])) =
     ((Some (Resp TypeBulkBytes None None), Some ErrRange), \<lparr>br = [], Err = Some ErrRange\<rparr>)
   \<and> ErrRange \<noteq> ErrBadBulkBytesLenTooLong"
proof -
  have l: "LF \<notin> set ''9223372036854775808''" by (simp add: LF_def)
  from decodeBulkBytes_bad_header [OF l Btoi64_beyond_int64, of "[]"] show ?thesis by simp
qed

lemma decodeMultiBulk_array:
  "decodeMultiBulk (TypeArray # br1) =
     (case decodeInt br1 of
        (Inl err, br2) \<Rightarrow> (Inl err, br2)
      | (Inr n, br2) \<Rightarrow>
          if sint n \<le> 0 then (Inl ErrBadArrayLen, br2)
          else if sint n > MaxArrayLen then (Inl ErrBadArrayLenTooLong, br2)
          else
            (case decodeMultiBulk_loop (nat (sint n)) [] br2 of
               (Inl err, br3) \<Rightarrow> (Inl err, br3)
             | (Inr multi, br3) \<Rightarrow> (Inr (Some multi), br3)))"
  by (simp add: decodeMultiBulk_def PeekByte_def ReadByte_def)

lemma Btoi64_small: "Btoi64 ''1'' = Inr 1" "Btoi64 ''2'' = Inr 2"
  by code_simp+

lemma LF_notin_small: "LF \<notin> set ''1''" "LF \<notin> set ''2''"
  by (simp_all add: LF_def)

text \<open>
  Claim C6, amended. A header line that declares the length \<open>-1\<close> gives the null value
  wherever a frame is decoded by \<^verbatim>\<open>decodeResp\<close>: the null array after the array tag,
  the null bulk string after the bulk tag. So it is on the single-frame entry point, at
  the top and for the elements of an array, and for a bulk element of a multi-bulk
  request. The multi-bulk entry point itself rejects a top-level array header that
  declares \<open>-1\<close>: it fails with \<^verbatim>\<open>ErrBadArrayLen\<close>.
\<close>

theorem null_frames:
  assumes "LF \<notin> set l" and "Btoi64 l = Inr n" and "sint n = - 1"
  shows "decodeResp (TypeArray # l @ CR # LF # rest) = (Inr (Resp TypeArray None None), rest)
     \<and> decodeResp (TypeBulkBytes # l @ CR # LF # rest) = (Inr (Resp TypeBulkBytes None None), rest)
     \<and> Decode (NewDecoder (TypeArray # l @ CR # LF # rest)) =
         ((Some (Resp TypeArray None None), None), \<lparr>br = rest, Err = None\<rparr>)
     \<and> Decode (NewDecoder (TypeBulkBytes # l @ CR # LF # rest)) =
         ((Some (Resp TypeBulkBytes None None), None), \<lparr>br = rest, Err = None\<rparr>)
     \<and> Decode (NewDecoder (TypeArray # ''2'' @ CR # LF #
           TypeArray # l @ CR # LF # TypeBulkBytes # l @ CR # LF # rest)) =
         ((Some (Resp TypeArray None
              (Some [Resp TypeArray None None, Resp TypeBulkBytes None None])), None),
          \<lparr>br = rest, Err = None\<rparr>)
     \<and> DecodeMultiBulk (NewDecoder (TypeArray # ''1'' @ CR # LF #
           TypeBulkBytes # l @ CR # LF # rest)) =
         ((Some [Resp TypeBulkBytes None None], None), \<lparr>br = rest, Err = None\<rparr>)
     \<and> DecodeMultiBulk (NewDecoder (TypeArray # l @ CR # LF # rest)) =
         ((None, Some ErrBadArrayLen), \<lparr>br = rest, Err = Some ErrBadArrayLen\<rparr>)"
proof -
  have a: "\<And>rest. decodeResp (TypeArray # l @ CR # LF # rest) = (Inr (Resp TypeArray None None), rest)"
    using decodeArray_header [OF assms] by (simp add: decodeResp_tag)
  have b: "\<And>rest. decodeResp (TypeBulkBytes # l @ CR # LF # rest) = (Inr (Resp TypeBulkBytes None None), rest)"
    using decodeBulkBytes_header(3) [OF assms] by (simp add: decodeResp_tag)
  have c: "decodeArray (''2'' @ CR # LF # TypeArray # l @ CR # LF # TypeBulkBytes # l @ CR # LF # rest)
      = (Inr (Some [Resp TypeArray None None, Resp TypeBulkBytes None None]), rest)"
    using decodeInt_line [OF LF_notin_small(2)] Btoi64_small(2) a b
    by (subst decodeArray.simps) (simp add: MaxArrayLen_def numeral_2_eq_2)
  have d: "decodeMultiBulk (TypeArray # ''1'' @ CR # LF # TypeBulkBytes # l @ CR # LF # rest)
      = (Inr (Some [Resp TypeBulkBytes None None]), rest)"
    using decodeInt_line [OF LF_notin_small(1)] Btoi64_small(1) b
    by (simp add: decodeMultiBulk_array MaxArrayLen_def)
  have e: "decodeMultiBulk (TypeArray # l @ CR # LF # rest) = (Inl ErrBadArrayLen, rest)"
    using decodeInt_line [OF assms(1), of rest] assms(2,3)
    by (simp add: decodeMultiBulk_array)
  show ?thesis
    using a [of rest] b [of rest] c d e
    by (simp add: Decode_def DecodeMultiBulk_def NewDecoder_def decodeResp_tag)
qed

theorem null_frames_witness:
  "DecodeFromBytes (''*-1'' @ [CR, LF]) = (Some (Resp TypeArray None None), None)
   \<and> DecodeFromBytes (''$-1'' @ [CR, LF]) = (Some (Resp TypeBulkBytes None None), None)
   \<and> DecodeMultiBulkFromBytes (''*1'' @ [CR, LF] @ ''$-1'' @ [CR, LF]) =
       (Some [Resp TypeBulkBytes None None], None)"
proof -
  have l: "LF \<notin> set ''-1''" by (simp add: LF_def)
  have b: "Btoi64 ''-1'' = Inr (- 1)" by code_simp
  have s: "sint (- 1 :: int64) = - 1" by simp
  show ?thesis
    using null_frames [OF l b s, of "[]"]
    by (simp add: DecodeFromBytes_def DecodeMultiBulkFromBytes_def TypeArray_def TypeBulkBytes_def)
qed

text \<open>
  The claim as stated fails on the multi-bulk entry point: the input \<open>*-1\r\n\<close> is an
  error there, not the null value.
\<close>

theorem multi_bulk_null_array_counterexample:
  "DecodeMultiBulkFromBytes (''*-1'' @ [CR, LF]) = (None, Some ErrBadArrayLen)"
proof -
  have l: "LF \<notin> set ''-1''" by (simp add: LF_def)
  have b: "Btoi64 ''-1'' = Inr (- 1)" by code_simp
  have "decodeMultiBulk (TypeArray # ''-1'' @ CR # LF # []) = (Inl ErrBadArrayLen, [])"
    using decodeInt_line [OF l, of "[]"] b by (simp add: decodeMultiBulk_array)
  then show ?thesis
    by (simp add: DecodeMultiBulkFromBytes_def DecodeMultiBulk_def NewDecoder_def TypeArray_def)
qed

subsection \<open>A failed decoder stays failed\<close>

lemma call_decoder_error_sets_Err:
  "reply_error (fst (call_decoder c d)) \<noteq> None \<Longrightarrow> Err (snd (call_decoder c d)) \<noteq> None"
  by (cases c)
    (auto simp: Decode_def DecodeMultiBulk_def split: if_splits prod.splits sum.splits)

lemma call_decoder_failed:
  "Err d \<noteq> None \<Longrightarrow> call_decoder c d = (failed_reply c, d)"
  by (cases c) (auto simp: Decode_def DecodeMultiBulk_def)

lemma run_calls_failed:
  "Err d \<noteq> None \<Longrightarrow> run_calls cs d = map (failed_reply \<circ> snd) cs"
proof (induction cs arbitrary: d)
  case Nil
  show ?case by simp
next
  case (Cons x cs)
  obtain bs c where x: "x = (bs, c)" by (cases x)
  have e: "Err (feed bs d) \<noteq> None" using Cons.prems by (simp add: feed_def)
  have "call_decoder c (feed bs d) = (failed_reply c, feed bs d)"
    using call_decoder_failed [OF e] .
  then show ?case using Cons.IH [OF e] x by simp
qed

text \<open>
  Claim C4. Once a call to \<^verbatim>\<open>Decode\<close> or \<^verbatim>\<open>DecodeMultiBulk\<close> has returned an error,
  every later call to either entry point returns no value and the error
  \<^verbatim>\<open>ErrFailedDecoder\<close>, whatever bytes are, or become, available on the input.
\<close>

theorem decoder_failed_forever:
  assumes "reply_error (fst (call_decoder c d)) \<noteq> None"
  shows "run_calls cs (snd (call_decoder c d)) = map (failed_reply \<circ> snd) cs"
  using run_calls_failed [OF call_decoder_error_sets_Err [OF assms]] .

theorem decoder_failed_forever_witness:
  "reply_error (fst (call_decoder CallDecode (NewDecoder ''?''))) = Some (ErrBadRespType (CHR ''?''))
   \<and> run_calls [(''+OK'' @ [CR, LF], CallDecode), (''PING'' @ [CR, LF], CallDecodeMultiBulk)]
         (snd (call_decoder CallDecode (NewDecoder ''?'')))
       = [ReplyDecode (None, Some ErrFailedDecoder), ReplyDecodeMultiBulk (None, Some ErrFailedDecoder)]"
proof -
  have e: "reply_error (fst (call_decoder CallDecode (NewDecoder ''?''))) = Some (ErrBadRespType (CHR ''?''))"
    by code_simp
  then have "reply_error (fst (call_decoder CallDecode (NewDecoder ''?''))) \<noteq> None" by simp
  from decoder_failed_forever [OF this] e show ?thesis by simp
qed

section \<open>Properties of the router\<close>

subsection \<open>Well-formed routers\<close>

lemma Router_inv_length: "Router_inv s \<Longrightarrow> length (slots s) = MaxSlotNum"
proof -
  assume "Router_inv s"
  then have "length (map slot_id (slots s)) = length (map int [0..<MaxSlotNum])"
    by (simp only: Router_inv_def)
  then show ?thesis by simp
qed

lemma Router_inv_slot_id:
  "Router_inv s \<Longrightarrow> i < MaxSlotNum \<Longrightarrow> slot_id (slots s ! i) = int i"
proof -
  assume a: "Router_inv s" and i: "i < MaxSlotNum"
  have "slot_id (slots s ! i) = map slot_id (slots s) ! i"
    using i Router_inv_length [OF a] by simp
  also have "\<dots> = map int [0..<MaxSlotNum] ! i" using a by (simp only: Router_inv_def)
  also have "\<dots> = int i" using i by simp
  finally show ?thesis .
qed

lemma Router_invI:
  "length (slots s) = MaxSlotNum \<Longrightarrow> (\<And>i. i < MaxSlotNum \<Longrightarrow> slot_id (slots s ! i) = int i) \<Longrightarrow> Router_inv s"
  unfolding Router_inv_def by (rule nth_equalityI) simp_all

lemma NewRouter_inv: "Router_inv (NewRouter cfg)"
  by (simp add: Router_inv_def NewRouter_def comp_def)

subsection \<open>The effect of fillSlot\<close>

lemma fillSlot_None: "SlotId m < 0 \<or> int (length (slots s)) \<le> SlotId m \<Longrightarrow> fillSlot s m sw me = None"
  by (simp add: fillSlot_def)

lemma fillSlot_Some:
  assumes "0 \<le> SlotId m" and "SlotId m < int (length (slots s))"
  shows "\<exists>evs. fillSlot s m sw me =
     Some (s\<lparr>slots := (slots s)[nat (SlotId m) :=
                  filled_slot (config s) (slots s ! nat (SlotId m)) m sw me],
             trace := trace s @ EvBlockAndWait (slot_id (slots s ! nat (SlotId m))) # evs\<rparr>)
     \<and> (\<forall>i. EvBlockAndWait i \<notin> set evs)
     \<and> (\<forall>i. EvUnblock i \<in> set evs \<longrightarrow> i = slot_id (slots s ! nat (SlotId m)))"
proof -
  obtain sid lh bb bi mb mi rg sm sw0 where
    sl: "slots s ! nat (SlotId m) = \<lparr>slot_id = sid, lock_hold = lh, backend_bc = bb, backend_id = bi,
       migrate_bc = mb, migrate_id = mi, replicaGroups = rg, slot_method = sm, switched = sw0\<rparr>"
    by (cases "slots s ! nat (SlotId m)") auto
  have nb: "\<And>i xs. EvBlockAndWait i \<notin> set (concat (map (\<lambda>g. concat (map (\<lambda>bc. Release replica (Some bc)) g)) xs))"
    by (auto simp: Release_def)
  have nu: "\<And>i xs. EvUnblock i \<notin> set (concat (map (\<lambda>g. concat (map (\<lambda>bc. Release replica (Some bc)) g)) xs))"
    by (auto simp: Release_def)
  show ?thesis
    using assms
    apply (simp add: fillSlot_def Let_def blockAndWait_def unblock_def filled_slot_def sl
        split: option.splits)
    apply (auto simp: Release_def nb nu split: option.splits)
    done
qed

lemma slot_id_filled_slot [simp]: "slot_id (filled_slot cfg slot m sw me) = slot_id slot"
  by (simp add: filled_slot_def)

lemma Addr_filled:
  "Addr (backend_bc (filled_slot cfg slot m sw me)) = BackendAddr m"
  "Addr (migrate_bc (filled_slot cfg slot m sw me)) = MigrateFrom m"
  "switched (filled_slot cfg slot m sw me) = sw"
  "slot_method (filled_slot cfg slot m sw None) = slot_method slot"
  by (simp_all add: filled_slot_def Addr_def)

lemma map_slot_id_update:
  "slot_id y = slot_id (xs ! k) \<Longrightarrow> map slot_id (xs[k := y]) = map slot_id xs"
proof (rule nth_equalityI)
  show "length (map slot_id (xs[k := y])) = length (map slot_id xs)" by simp
next
  fix i assume a: "slot_id y = slot_id (xs ! k)" and "i < length (map slot_id (xs[k := y]))"
  then have i: "i < length xs" by simp
  show "map slot_id (xs[k := y]) ! i = map slot_id xs ! i"
    using a i by (cases "i = k") simp_all
qed

lemma fillSlot_effect:
  assumes inv: "Router_inv s" and lo: "0 \<le> SlotId m" and hi: "SlotId m < int MaxSlotNum"
  shows "\<exists>s1 evs. fillSlot s m sw me = Some s1
     \<and> trace s1 = trace s @ EvBlockAndWait (SlotId m) # evs
     \<and> config s1 = config s \<and> closed s1 = closed s \<and> online s1 = online s \<and> Router_inv s1
     \<and> slots s1 ! nat (SlotId m) = filled_slot (config s) (slots s ! nat (SlotId m)) m sw me
     \<and> (\<forall>j<MaxSlotNum. j \<noteq> nat (SlotId m) \<longrightarrow> slots s1 ! j = slots s ! j)"
proof -
  have len: "length (slots s) = MaxSlotNum" using inv by (rule Router_inv_length)
  have n: "nat (SlotId m) < MaxSlotNum" using lo hi by simp
  have sid: "slot_id (slots s ! nat (SlotId m)) = SlotId m"
    using Router_inv_slot_id [OF inv n] lo by simp
  have "SlotId m < int (length (slots s))" using hi len by simp
  from fillSlot_Some [OF lo this, of sw me] obtain evs where
    f: "fillSlot s m sw me =
     Some (s\<lparr>slots := (slots s)[nat (SlotId m) :=
                  filled_slot (config s) (slots s ! nat (SlotId m)) m sw me],
             trace := trace s @ EvBlockAndWait (slot_id (slots s ! nat (SlotId m))) # evs\<rparr>)"
    by blast
  let ?s1 = "s\<lparr>slots := (slots s)[nat (SlotId m) :=
                  filled_slot (config s) (slots s ! nat (SlotId m)) m sw me],
             trace := trace s @ EvBlockAndWait (slot_id (slots s ! nat (SlotId m))) # evs\<rparr>"
  have i1: "Router_inv ?s1"
  proof (rule Router_invI)
    show "length (slots ?s1) = MaxSlotNum" using len by simp
  next
    fix i assume i: "i < MaxSlotNum"
    show "slot_id (slots ?s1 ! i) = int i"
      using Router_inv_slot_id [OF inv i] i len sid lo
      by (cases "i = nat (SlotId m)") (simp_all add: filled_slot_def)
  qed
  have "slots ?s1 ! nat (SlotId m) = filled_slot (config s) (slots s ! nat (SlotId m)) m sw me"
    using n len by simp
  moreover have "\<forall>j<MaxSlotNum. j \<noteq> nat (SlotId m) \<longrightarrow> slots ?s1 ! j = slots s ! j"
    by simp
  moreover have "trace ?s1 = trace s @ EvBlockAndWait (SlotId m) # evs" using sid by simp
  ultimately show ?thesis using f i1 by (intro exI [of _ ?s1] exI [of _ evs]) simp
qed

subsection \<open>FillSlot\<close>

text \<open>
  Claim C3. On a well-formed router, \<^verbatim>\<open>FillSlot\<close> returns \<^verbatim>\<open>ErrClosedRouter\<close> whenever
  the router is closed; otherwise \<^verbatim>\<open>ErrInvalidSlotId\<close> whenever the descriptor's slot id
  is outside \<open>[0, 1024)\<close>; otherwise \<^verbatim>\<open>ErrInvalidMethod\<close> whenever the forwarding-kind
  tag is neither sync nor semi-async. In each of these cases the router, and so every
  slot, is returned as it was. In every other case the call succeeds: it returns nil.
\<close>

theorem FillSlot_errors:
  assumes "Router_inv s"
  shows "(closed s \<longrightarrow> FillSlot s m = Some (Some ErrClosedRouter, s))
     \<and> (\<not> closed s \<and> (SlotId m < 0 \<or> SlotId m \<ge> 1024) \<longrightarrow>
          FillSlot s m = Some (Some ErrInvalidSlotId, s))
     \<and> (\<not> closed s \<and> 0 \<le> SlotId m \<and> SlotId m < 1024
          \<and> ForwardMethod m \<noteq> ForwardSync \<and> ForwardMethod m \<noteq> ForwardSemiAsync \<longrightarrow>
          FillSlot s m = Some (Some ErrInvalidMethod, s))
     \<and> (\<not> closed s \<and> 0 \<le> SlotId m \<and> SlotId m < 1024
          \<and> (ForwardMethod m = ForwardSync \<or> ForwardMethod m = ForwardSemiAsync) \<longrightarrow>
          (\<exists>s1. FillSlot s m = Some (None, s1)))"
proof (intro conjI impI)
  assume "closed s"
  then show "FillSlot s m = Some (Some ErrClosedRouter, s)" by (simp add: FillSlot_def)
next
  assume "\<not> closed s \<and> (SlotId m < 0 \<or> SlotId m \<ge> 1024)"
  then show "FillSlot s m = Some (Some ErrInvalidSlotId, s)"
    by (auto simp: FillSlot_def MaxSlotNum_def)
next
  assume "\<not> closed s \<and> 0 \<le> SlotId m \<and> SlotId m < 1024
          \<and> ForwardMethod m \<noteq> ForwardSync \<and> ForwardMethod m \<noteq> ForwardSemiAsync"
  then show "FillSlot s m = Some (Some ErrInvalidMethod, s)"
    by (simp add: FillSlot_def MaxSlotNum_def)
next
  assume a: "\<not> closed s \<and> 0 \<le> SlotId m \<and> SlotId m < 1024
          \<and> (ForwardMethod m = ForwardSync \<or> ForwardMethod m = ForwardSemiAsync)"
  then have lo: "0 \<le> SlotId m" and hi: "SlotId m < int MaxSlotNum" by (simp_all add: MaxSlotNum_def)
  from fillSlot_effect [OF assms lo hi, of False "Some forwardSync"]
  obtain s1 where f1: "fillSlot s m False (Some forwardSync) = Some s1" by blast
  from fillSlot_effect [OF assms lo hi, of False "Some forwardSemiAsync"]
  obtain s2 where f2: "fillSlot s m False (Some forwardSemiAsync) = Some s2" by blast
  show "\<exists>s1. FillSlot s m = Some (None, s1)"
    using a f1 f2 by (auto simp: FillSlot_def MaxSlotNum_def)
qed

subsection \<open>Close\<close>

lemma Close_loop_effect:
  assumes "\<forall>i\<in>set js. i < length (slots s)"
  shows "\<exists>s1. Close_loop js s = Some s1 \<and> closed s1 = closed s \<and> online s1 = online s
     \<and> config s1 = config s \<and> map slot_id (slots s1) = map slot_id (slots s)"
  using assms
proof (induction js arbitrary: s)
  case Nil
  show ?case by simp
next
  case (Cons k js)
  have k: "k < length (slots s)" using Cons.prems by simp
  let ?m = "models_Slot_Id (int k)"
  have "0 \<le> SlotId ?m" "SlotId ?m < int (length (slots s))"
    using k by (simp_all add: models_Slot_Id_def)
  from fillSlot_Some [OF this, of False None] obtain evs where
    f: "fillSlot s ?m False None =
     Some (s\<lparr>slots := (slots s)[nat (SlotId ?m) :=
                  filled_slot (config s) (slots s ! nat (SlotId ?m)) ?m False None],
             trace := trace s @ EvBlockAndWait (slot_id (slots s ! nat (SlotId ?m))) # evs\<rparr>)"
    by blast
  let ?s0 = "s\<lparr>slots := (slots s)[nat (SlotId ?m) :=
                  filled_slot (config s) (slots s ! nat (SlotId ?m)) ?m False None],
             trace := trace s @ EvBlockAndWait (slot_id (slots s ! nat (SlotId ?m))) # evs\<rparr>"
  have ids: "map slot_id (slots ?s0) = map slot_id (slots s)"
    by (simp add: map_slot_id_update)
  have "\<forall>i\<in>set js. i < length (slots ?s0)" using Cons.prems by simp
  from Cons.IH [OF this] obtain s1 where
    "Close_loop js ?s0 = Some s1" "closed s1 = closed ?s0" "online s1 = online ?s0"
    "config s1 = config ?s0" "map slot_id (slots s1) = map slot_id (slots ?s0)"
    by blast
  with f ids show ?case by simp
qed

lemma Close_effect:
  "\<exists>s1. Close s = Some s1 \<and> closed s1 \<and> online s1 = online s \<and> config s1 = config s
     \<and> map slot_id (slots s1) = map slot_id (slots s)"
proof (cases "closed s")
  case True
  then show ?thesis by (simp add: Close_def)
next
  case False
  have "\<forall>i\<in>set [0..<length (slots s)]. i < length (slots (s\<lparr>closed := True\<rparr>))" by simp
  from Close_loop_effect [OF this] False show ?thesis by (auto simp: Close_def)
qed

lemma Close_inv: "Router_inv s \<Longrightarrow> Close s = Some s1 \<Longrightarrow> Router_inv s1 \<and> closed s1"
  using Close_effect [of s] by (auto simp: Router_inv_def)

lemma closed_apply_op: "closed s \<Longrightarrow> apply_op x s = Some s"
  by (cases x) (simp_all add: Start_def Close_def FillSlot_def SwitchMasters_def KeepAlive_def)

lemma closed_run_ops: "closed s \<Longrightarrow> run_ops xs s = Some s"
  by (induction xs) (simp_all add: closed_apply_op)

text \<open>
  Claim C10. \<^verbatim>\<open>Close\<close> always returns, and leaves the closed flag set. From then on, after
  any sequence of \<^verbatim>\<open>Start\<close>, \<^verbatim>\<open>Close\<close>, \<^verbatim>\<open>FillSlot\<close>, \<^verbatim>\<open>SwitchMasters\<close> and
  \<^verbatim>\<open>KeepAlive\<close> calls, the router is closed and not online; a \<^verbatim>\<open>Start\<close> call there
  returns the router as it is, the online flag untouched; a \<^verbatim>\<open>Close\<close> call there returns
  the router as it is, with no slot walked (nothing is added to the trace).
\<close>

theorem closed_forever:
  "\<exists>s1. Close s = Some s1 \<and> closed s1
     \<and> (\<forall>xs. \<exists>s2. run_ops xs s1 = Some s2 \<and> closed s2 \<and> \<not> isOnline s2
            \<and> Start s2 = s2 \<and> online s2 = online s \<and> Close s2 = Some s2 \<and> trace s2 = trace s1)"
proof -
  from Close_effect [of s] obtain s1 where
    c: "Close s = Some s1" "closed s1" "online s1 = online s" by blast
  have "\<exists>s2. run_ops xs s1 = Some s2 \<and> closed s2 \<and> \<not> isOnline s2
            \<and> Start s2 = s2 \<and> online s2 = online s \<and> Close s2 = Some s2 \<and> trace s2 = trace s1" for xs
    using closed_run_ops [OF c(2), of xs] c(2,3)
    by (simp add: isOnline_def Start_def Close_def)
  with c show ?thesis by blast
qed

theorem closed_forever_witness:
  "map_option closed (Close (Start (NewRouter example_config))) = Some True
   \<and> isOnline (Start (NewRouter example_config))
   \<and> map_option isOnline
        (Option.bind (Close (Start (NewRouter example_config)))
           (run_ops [OpStart, OpFillSlot example_descriptor, OpKeepAlive, OpClose, OpStart]))
       = Some False"
proof -
  from closed_forever [of "Start (NewRouter example_config)"] obtain s1 where
    c: "Close (Start (NewRouter example_config)) = Some s1" "closed s1"
    and r: "\<forall>xs. \<exists>s2. run_ops xs s1 = Some s2 \<and> closed s2 \<and> \<not> isOnline s2
            \<and> Start s2 = s2 \<and> online s2 = online (Start (NewRouter example_config))
            \<and> Close s2 = Some s2 \<and> trace s2 = trace s1"
    by blast
  from r obtain s2 where
    "run_ops [OpStart, OpFillSlot example_descriptor, OpKeepAlive, OpClose, OpStart] s1 = Some s2"
    "\<not> isOnline s2" by blast
  moreover have "isOnline (Start (NewRouter example_config))"
    by (simp add: isOnline_def Start_def NewRouter_def)
  ultimately show ?thesis using c by simp
qed

theorem FillSlot_errors_witness:
  "FillSlot (NewRouter example_config) (example_descriptor\<lparr>SlotId := 1024\<rparr>)
       = Some (Some ErrInvalidSlotId, NewRouter example_config)
   \<and> FillSlot (NewRouter example_config) (example_descriptor\<lparr>SlotId := - 1\<rparr>)
       = Some (Some ErrInvalidSlotId, NewRouter example_config)
   \<and> FillSlot (NewRouter example_config) (example_descriptor\<lparr>ForwardMethod := 7\<rparr>)
       = Some (Some ErrInvalidMethod, NewRouter example_config)
   \<and> map_option fst (FillSlot (NewRouter example_config) example_descriptor) = Some None
   \<and> map_option fst (Option.bind (Close (NewRouter example_config))
        (\<lambda>s. FillSlot s example_descriptor)) = Some (Some ErrClosedRouter)"
proof -
  let ?s = "NewRouter example_config"
  have o: "\<not> closed ?s" by (simp add: NewRouter_def)
  obtain s1 where c: "Close ?s = Some s1" using Close_effect [of ?s] by blast
  have i1: "Router_inv s1" and c1: "closed s1" using Close_inv [OF NewRouter_inv c] by simp_all
  have "FillSlot ?s (example_descriptor\<lparr>SlotId := 1024\<rparr>) = Some (Some ErrInvalidSlotId, ?s)"
    using FillSlot_errors [OF NewRouter_inv, of example_config "example_descriptor\<lparr>SlotId := 1024\<rparr>"] o
    by simp
  moreover have "FillSlot ?s (example_descriptor\<lparr>SlotId := - 1\<rparr>) = Some (Some ErrInvalidSlotId, ?s)"
    using FillSlot_errors [OF NewRouter_inv, of example_config "example_descriptor\<lparr>SlotId := - 1\<rparr>"] o
    by simp
  moreover have "FillSlot ?s (example_descriptor\<lparr>ForwardMethod := 7\<rparr>) = Some (Some ErrInvalidMethod, ?s)"
    using FillSlot_errors [OF NewRouter_inv, of example_config "example_descriptor\<lparr>ForwardMethod := 7\<rparr>"] o
    by (simp add: example_descriptor_def ForwardSync_def ForwardSemiAsync_def)
  moreover have "map_option fst (FillSlot ?s example_descriptor) = Some None"
    using FillSlot_errors [OF NewRouter_inv, of example_config example_descriptor] o
    by (auto simp: example_descriptor_def)
  moreover have "FillSlot s1 example_descriptor = Some (Some ErrClosedRouter, s1)"
    using FillSlot_errors [OF i1, of example_descriptor] c1 by simp
  ultimately show ?thesis using c by simp
qed

subsection \<open>SwitchMasters\<close>

lemma keeps_addr_hasSameRunId:
  "keeps_addr cache new cur \<longleftrightarrow> \<not> (new \<noteq> [] \<and> \<not> hasSameRunId cache new cur)"
  by (auto simp: keeps_addr_def hasSameRunId_def Let_def)

lemma switch_needed_keeps: "switch_needed cache new cur \<longleftrightarrow> \<not> keeps_addr cache new cur"
  by (auto simp: switch_needed_def keeps_addr_def)

lemma slot_id_switched_slot [simp]: "slot_id (switched_slot cfg cache masters slot) = slot_id slot"
  by (simp add: switched_slot_def filled_slot_def)

lemma switch_condition:
  "(new \<noteq> [] \<and> \<not> hasSameRunId cache new cur) = (\<not> keeps_addr cache new cur)"
  by (simp add: keeps_addr_hasSameRunId)

lemma trySwitchMaster_fill:
  assumes j: "j < length (slots s)"
  shows "trySwitchMaster s (int j) masters cache =
     (if keeps_slot cache masters (slots s ! j) then Some s
      else fillSlot s (switch_descriptor cache masters (slots s ! j)) True None)"
proof -
  let ?kb = "keeps_addr cache (masters_get masters (backend_id (slots s ! j))) (Addr (backend_bc (slots s ! j)))"
  let ?km = "keeps_addr cache (masters_get masters (migrate_id (slots s ! j))) (Addr (migrate_bc (slots s ! j)))"
  have r: "\<not> (int j < 0 \<or> int (length (slots s)) \<le> int j)" using j by simp
  show ?thesis
  proof (cases ?kb)
    case kb: True
    show ?thesis
    proof (cases ?km)
      case True
      with kb show ?thesis
        unfolding trySwitchMaster_def
        by (simp only: r if_False nat_int Let_def snapshot_def switch_condition) (simp add: keeps_slot_def)
    next
      case False
      with kb show ?thesis
        unfolding trySwitchMaster_def
        by (simp only: r if_False nat_int Let_def snapshot_def switch_condition)
          (simp add: keeps_slot_def switch_descriptor_def snapshot_def)
    qed
  next
    case kb: False
    show ?thesis
    proof (cases ?km)
      case True
      with kb show ?thesis
        unfolding trySwitchMaster_def
        by (simp only: r if_False nat_int Let_def snapshot_def switch_condition)
          (simp add: keeps_slot_def switch_descriptor_def snapshot_def)
    next
      case False
      with kb show ?thesis
        unfolding trySwitchMaster_def
        by (simp only: r if_False nat_int Let_def snapshot_def switch_condition)
          (simp add: keeps_slot_def switch_descriptor_def snapshot_def)
    qed
  qed
qed

lemma trySwitchMaster_step:
  assumes j: "j < length (slots s)" and sid: "slot_id (slots s ! j) = int j"
  shows "\<exists>evs. trySwitchMaster s (int j) masters cache =
       Some (s\<lparr>slots := (slots s)[j := switched_slot (config s) cache masters (slots s ! j)],
               trace := trace s @ evs\<rparr>)
     \<and> (\<forall>i. EvBlockAndWait i \<in> set evs \<longleftrightarrow> i = int j \<and> \<not> keeps_slot cache masters (slots s ! j))
     \<and> (\<forall>i. EvUnblock i \<in> set evs \<longrightarrow> i = int j \<and> \<not> keeps_slot cache masters (slots s ! j))"
proof (cases "keeps_slot cache masters (slots s ! j)")
  case True
  then have "trySwitchMaster s (int j) masters cache = Some s"
    using trySwitchMaster_fill [OF j] by simp
  moreover have "s\<lparr>slots := (slots s)[j := switched_slot (config s) cache masters (slots s ! j)],
               trace := trace s @ []\<rparr> = s"
    using True by (simp add: switched_slot_def)
  ultimately show ?thesis using True by (intro exI [of _ "[]"]) simp
next
  case False
  let ?m = "switch_descriptor cache masters (slots s ! j)"
  have id: "SlotId ?m = int j" using sid by (simp add: switch_descriptor_def snapshot_def)
  have t: "trySwitchMaster s (int j) masters cache = fillSlot s ?m True None"
    using trySwitchMaster_fill [OF j] False by simp
  have "0 \<le> SlotId ?m" "SlotId ?m < int (length (slots s))" using id j by simp_all
  from fillSlot_Some [OF this, of True None] obtain evs where
    f: "fillSlot s ?m True None =
     Some (s\<lparr>slots := (slots s)[nat (SlotId ?m) :=
                  filled_slot (config s) (slots s ! nat (SlotId ?m)) ?m True None],
             trace := trace s @ EvBlockAndWait (slot_id (slots s ! nat (SlotId ?m))) # evs\<rparr>)"
    and nb: "\<forall>i. EvBlockAndWait i \<notin> set evs"
    and nu: "\<forall>i. EvUnblock i \<in> set evs \<longrightarrow> i = slot_id (slots s ! nat (SlotId ?m))"
    by blast
  show ?thesis
    using t f nb nu False sid
    by (intro exI [of _ "EvBlockAndWait (int j) # evs"]) (auto simp: id switched_slot_def)
qed

lemma SwitchMasters_loop_effect:
  assumes "\<forall>i\<in>set js. i < length (slots s)" and "distinct js"
    and "\<forall>i<length (slots s). slot_id (slots s ! i) = int i"
  shows "\<exists>s1 evs. SwitchMasters_loop js masters cache s = Some s1
     \<and> trace s1 = trace s @ evs \<and> config s1 = config s \<and> closed s1 = closed s
     \<and> online s1 = online s \<and> length (slots s1) = length (slots s)
     \<and> (\<forall>j<length (slots s). slots s1 ! j =
           (if j \<in> set js then switched_slot (config s) cache masters (slots s ! j) else slots s ! j))
     \<and> (\<forall>i. EvBlockAndWait i \<in> set evs \<longleftrightarrow>
           (\<exists>j\<in>set js. i = int j \<and> \<not> keeps_slot cache masters (slots s ! j)))
     \<and> (\<forall>i. EvUnblock i \<in> set evs \<longrightarrow>
           (\<exists>j\<in>set js. i = int j \<and> \<not> keeps_slot cache masters (slots s ! j)))"
  using assms
proof (induction js arbitrary: s)
  case Nil
  show ?case by (intro exI [of _ s] exI [of _ "[]"]) simp
next
  case (Cons k js)
  have k: "k < length (slots s)" using Cons.prems(1) by simp
  have kid: "slot_id (slots s ! k) = int k" using Cons.prems(3) k by simp
  from trySwitchMaster_step [OF k kid, of masters cache] obtain evs0 where
    st: "trySwitchMaster s (int k) masters cache =
       Some (s\<lparr>slots := (slots s)[k := switched_slot (config s) cache masters (slots s ! k)],
               trace := trace s @ evs0\<rparr>)"
    and b0: "\<forall>i. EvBlockAndWait i \<in> set evs0 \<longleftrightarrow> i = int k \<and> \<not> keeps_slot cache masters (slots s ! k)"
    and u0: "\<forall>i. EvUnblock i \<in> set evs0 \<longrightarrow> i = int k \<and> \<not> keeps_slot cache masters (slots s ! k)"
    by blast
  let ?s0 = "s\<lparr>slots := (slots s)[k := switched_slot (config s) cache masters (slots s ! k)],
               trace := trace s @ evs0\<rparr>"
  have p1: "\<forall>i\<in>set js. i < length (slots ?s0)" using Cons.prems(1) by simp
  have p2: "distinct js" using Cons.prems(2) by simp
  have p3: "\<forall>i<length (slots ?s0). slot_id (slots ?s0 ! i) = int i"
    using Cons.prems(3) k by (auto simp: nth_list_update)
  from Cons.IH [OF p1 p2 p3] obtain s1 evs where
    l: "SwitchMasters_loop js masters cache ?s0 = Some s1"
    and t: "trace s1 = trace ?s0 @ evs" and c: "config s1 = config ?s0"
    and cl: "closed s1 = closed ?s0" and on: "online s1 = online ?s0"
    and len: "length (slots s1) = length (slots ?s0)"
    and sl: "\<forall>j<length (slots ?s0). slots s1 ! j =
           (if j \<in> set js then switched_slot (config ?s0) cache masters (slots ?s0 ! j) else slots ?s0 ! j)"
    and b: "\<forall>i. EvBlockAndWait i \<in> set evs \<longleftrightarrow>
           (\<exists>j\<in>set js. i = int j \<and> \<not> keeps_slot cache masters (slots ?s0 ! j))"
    and u: "\<forall>i. EvUnblock i \<in> set evs \<longrightarrow>
           (\<exists>j\<in>set js. i = int j \<and> \<not> keeps_slot cache masters (slots ?s0 ! j))"
    by blast
  have kn: "k \<notin> set js" using Cons.prems(2) by simp
  have same: "slots ?s0 ! j = slots s ! j" if "j \<in> set js" for j
  proof -
    from that kn have "k \<noteq> j" by blast
    then show ?thesis by simp
  qed
  have sl': "\<forall>j<length (slots s). slots s1 ! j =
           (if j \<in> set (k # js) then switched_slot (config s) cache masters (slots s ! j) else slots s ! j)"
  proof (intro allI impI)
    fix j assume j: "j < length (slots s)"
    then have "slots s1 ! j =
           (if j \<in> set js then switched_slot (config ?s0) cache masters (slots ?s0 ! j) else slots ?s0 ! j)"
      using sl by simp
    then show "slots s1 ! j =
           (if j \<in> set (k # js) then switched_slot (config s) cache masters (slots s ! j) else slots s ! j)"
      using kn j same by (auto simp: nth_list_update)
  qed
  have b': "\<forall>i. EvBlockAndWait i \<in> set (evs0 @ evs) \<longleftrightarrow>
           (\<exists>j\<in>set (k # js). i = int j \<and> \<not> keeps_slot cache masters (slots s ! j))"
    using b0 b same by auto
  have u': "\<forall>i. EvUnblock i \<in> set (evs0 @ evs) \<longrightarrow>
           (\<exists>j\<in>set (k # js). i = int j \<and> \<not> keeps_slot cache masters (slots s ! j))"
    using u0 u same by auto
  have "SwitchMasters_loop (k # js) masters cache s = Some s1" using st l by simp
  moreover have "trace s1 = trace s @ (evs0 @ evs)" using t by simp
  moreover have "config s1 = config s" "closed s1 = closed s" "online s1 = online s"
    "length (slots s1) = length (slots s)" using c cl on len by simp_all
  ultimately show ?case using sl' b' u' by blast
qed

lemma SwitchMasters_effect:
  assumes inv: "Router_inv s" and op: "\<not> closed s"
  shows "\<exists>s1 evs. SwitchMasters cache s masters = Some (None, s1)
     \<and> trace s1 = trace s @ evs \<and> config s1 = config s \<and> closed s1 = closed s
     \<and> online s1 = online s \<and> Router_inv s1
     \<and> (\<forall>j<MaxSlotNum. slots s1 ! j = switched_slot (config s) cache masters (slots s ! j))
     \<and> (\<forall>j<MaxSlotNum. EvBlockAndWait (int j) \<in> set evs \<longleftrightarrow> \<not> keeps_slot cache masters (slots s ! j))
     \<and> (\<forall>j<MaxSlotNum. EvUnblock (int j) \<in> set evs \<longrightarrow> \<not> keeps_slot cache masters (slots s ! j))"
proof -
  have len: "length (slots s) = MaxSlotNum" using inv by (rule Router_inv_length)
  have a1: "\<forall>i\<in>set [0..<length (slots s)]. i < length (slots s)" by simp
  have a2: "distinct [0..<length (slots s)]" by simp
  have a3: "\<forall>i<length (slots s). slot_id (slots s ! i) = int i"
    using Router_inv_slot_id [OF inv] len by simp
  from SwitchMasters_loop_effect [OF a1 a2 a3, of masters cache] obtain s1 evs where
    l: "SwitchMasters_loop [0..<length (slots s)] masters cache s = Some s1"
    and t: "trace s1 = trace s @ evs" and c: "config s1 = config s"
    and cl: "closed s1 = closed s" and on: "online s1 = online s"
    and ln: "length (slots s1) = length (slots s)"
    and sl: "\<forall>j<length (slots s). slots s1 ! j =
           (if j \<in> set [0..<length (slots s)] then switched_slot (config s) cache masters (slots s ! j) else slots s ! j)"
    and b: "\<forall>i. EvBlockAndWait i \<in> set evs \<longleftrightarrow>
           (\<exists>j\<in>set [0..<length (slots s)]. i = int j \<and> \<not> keeps_slot cache masters (slots s ! j))"
    and u: "\<forall>i. EvUnblock i \<in> set evs \<longrightarrow>
           (\<exists>j\<in>set [0..<length (slots s)]. i = int j \<and> \<not> keeps_slot cache masters (slots s ! j))"
    by blast
  have sl': "\<forall>j<MaxSlotNum. slots s1 ! j = switched_slot (config s) cache masters (slots s ! j)"
    using sl len by simp
  have i1: "Router_inv s1"
  proof (rule Router_invI)
    show "length (slots s1) = MaxSlotNum" using ln len by simp
  next
    fix i assume "i < MaxSlotNum"
    then show "slot_id (slots s1 ! i) = int i"
      using sl' Router_inv_slot_id [OF inv] by simp
  qed
  have b': "\<forall>j<MaxSlotNum. EvBlockAndWait (int j) \<in> set evs \<longleftrightarrow> \<not> keeps_slot cache masters (slots s ! j)"
    using b len by auto
  have u': "\<forall>j<MaxSlotNum. EvUnblock (int j) \<in> set evs \<longrightarrow> \<not> keeps_slot cache masters (slots s ! j)"
    using u len by auto
  have "SwitchMasters cache s masters = Some (None, s1)" using l op by (simp add: SwitchMasters_def)
  then show ?thesis using t c cl on i1 sl' b' u' by blast
qed

text \<open>
  Every router reached from \<^verbatim>\<open>NewRouter\<close> by the operations is well formed, and no
  operation panics on it.
\<close>

lemma apply_op_inv:
  assumes "Router_inv s"
  shows "\<exists>s1. apply_op x s = Some s1 \<and> Router_inv s1"
proof (cases x)
  case OpStart
  then show ?thesis using assms by (simp add: Start_def Router_inv_def)
next
  case OpClose
  obtain s1 where c: "Close s = Some s1" using Close_effect [of s] by blast
  with Close_inv [OF assms c] OpClose show ?thesis by simp
next
  case (OpFillSlot m)
  show ?thesis
  proof (cases "closed s \<or> SlotId m < 0 \<or> SlotId m \<ge> int MaxSlotNum
      \<or> (ForwardMethod m \<noteq> ForwardSync \<and> ForwardMethod m \<noteq> ForwardSemiAsync)")
    case True
    then show ?thesis using assms OpFillSlot by (auto simp: FillSlot_def)
  next
    case False
    then have lo: "0 \<le> SlotId m" and hi: "SlotId m < int MaxSlotNum" by simp_all
    from fillSlot_effect [OF assms lo hi, of False "Some forwardSync"]
    obtain s1 where f1: "fillSlot s m False (Some forwardSync) = Some s1" "Router_inv s1" by blast
    from fillSlot_effect [OF assms lo hi, of False "Some forwardSemiAsync"]
    obtain s2 where f2: "fillSlot s m False (Some forwardSemiAsync) = Some s2" "Router_inv s2" by blast
    show ?thesis using False f1 f2 OpFillSlot by (auto simp: FillSlot_def)
  qed
next
  case (OpSwitchMasters cache masters)
  show ?thesis
  proof (cases "closed s")
    case True
    then show ?thesis using assms OpSwitchMasters by (simp add: SwitchMasters_def)
  next
    case False
    from SwitchMasters_effect [OF assms False, of cache masters] OpSwitchMasters
    show ?thesis by auto
  qed
next
  case OpKeepAlive
  then show ?thesis using assms by (simp add: KeepAlive_def Router_inv_def)
qed

lemma run_ops_inv:
  "Router_inv s \<Longrightarrow> \<exists>s1. run_ops xs s = Some s1 \<and> Router_inv s1"
proof (induction xs arbitrary: s)
  case Nil
  then show ?case by simp
next
  case (Cons x xs)
  from apply_op_inv [OF Cons.prems, of x] obtain s0 where
    a: "apply_op x s = Some s0" "Router_inv s0" by blast
  from Cons.IH [OF a(2)] a(1) show ?case by simp
qed

lemma reachable_inv: "\<exists>s1. run_ops xs (NewRouter cfg) = Some s1 \<and> Router_inv s1"
  using run_ops_inv [OF NewRouter_inv] .

lemma example_router_facts:
  "Router_inv example_router" "\<not> closed example_router"
  "config example_router = example_config"
  "slots example_router ! 0 =
     \<lparr>slot_id = 0, lock_hold = False, backend_bc = Some ''10.0.0.1'', backend_id = 1,
      migrate_bc = None, migrate_id = 0, replicaGroups = [], slot_method = forwardSync,
      switched = False\<rparr>"
proof -
  let ?s = "NewRouter example_config"
  have lo: "0 \<le> SlotId example_descriptor" and hi: "SlotId example_descriptor < int MaxSlotNum"
    by (simp_all add: example_descriptor_def MaxSlotNum_def)
  from fillSlot_effect [OF NewRouter_inv lo hi, of example_config False "Some forwardSync"]
  obtain s1 where f: "fillSlot ?s example_descriptor False (Some forwardSync) = Some s1"
    and c: "config s1 = config ?s" "closed s1 = closed ?s" and i: "Router_inv s1"
    and sl: "slots s1 ! nat (SlotId example_descriptor) =
       filled_slot (config ?s) (slots ?s ! nat (SlotId example_descriptor)) example_descriptor False (Some forwardSync)"
    by blast
  have "FillSlot ?s example_descriptor = Some (None, s1)"
    using f by (simp add: FillSlot_def NewRouter_def example_descriptor_def MaxSlotNum_def)
  then have e: "example_router = s1" by (simp add: example_router_def)
  have z: "slots ?s ! 0 = \<lparr>slot_id = 0, lock_hold = False, backend_bc = None, backend_id = 0,
      migrate_bc = None, migrate_id = 0, replicaGroups = [], slot_method = forwardSync, switched = False\<rparr>"
    by (simp add: NewRouter_def MaxSlotNum_def)
  show "Router_inv example_router" using e i by simp
  show "\<not> closed example_router" using e c by (simp add: NewRouter_def)
  show "config example_router = example_config" using e c by (simp add: NewRouter_def)
  show "slots example_router ! 0 =
     \<lparr>slot_id = 0, lock_hold = False, backend_bc = Some ''10.0.0.1'', backend_id = 1,
      migrate_bc = None, migrate_id = 0, replicaGroups = [], slot_method = forwardSync,
      switched = False\<rparr>"
    using e sl z by (simp add: example_descriptor_def filled_slot_def NewRouter_def example_config_def)
qed

text \<open>
  Claim C1, amended. On an open, well-formed router, a slot for which each of the two
  groups (backend and migrate-from) asks for no change, that is, the map gives the group
  no address, or the address the slot already holds, or a different address whose run-id
  is known and equal to the run-id of the current address, is left as it is by
  \<^verbatim>\<open>SwitchMasters\<close>: the slot is unchanged, its switched flag with it, and the call
  neither drains nor reopens its barrier.
\<close>

theorem SwitchMasters_unchanged:
  assumes "Router_inv s" and "\<not> closed s" and "j < MaxSlotNum"
    and "keeps_addr cache (masters_get masters (backend_id (slots s ! j))) (Addr (backend_bc (slots s ! j)))"
    and "keeps_addr cache (masters_get masters (migrate_id (slots s ! j))) (Addr (migrate_bc (slots s ! j)))"
  shows "\<exists>s1 evs. SwitchMasters cache s masters = Some (None, s1)
     \<and> slots s1 ! j = slots s ! j
     \<and> trace s1 = trace s @ evs
     \<and> EvBlockAndWait (int j) \<notin> set evs \<and> EvUnblock (int j) \<notin> set evs"
proof -
  have k: "keeps_slot cache masters (slots s ! j)" using assms(4,5) by (simp add: keeps_slot_def)
  from SwitchMasters_effect [OF assms(1,2), of cache masters] obtain s1 evs where
    "SwitchMasters cache s masters = Some (None, s1)" "trace s1 = trace s @ evs"
    "\<forall>j<MaxSlotNum. slots s1 ! j = switched_slot (config s) cache masters (slots s ! j)"
    "\<forall>j<MaxSlotNum. EvBlockAndWait (int j) \<in> set evs \<longleftrightarrow> \<not> keeps_slot cache masters (slots s ! j)"
    "\<forall>j<MaxSlotNum. EvUnblock (int j) \<in> set evs \<longrightarrow> \<not> keeps_slot cache masters (slots s ! j)"
    by blast
  with k assms(3) show ?thesis
    by (intro exI [of _ s1] exI [of _ evs]) (auto simp: switched_slot_def)
qed

theorem SwitchMasters_unchanged_witness:
  "keeps_addr unknown_cache (masters_get [1 \<mapsto> ''10.0.0.1''] (backend_id (slots example_router ! 0)))
       (Addr (backend_bc (slots example_router ! 0)))
   \<and> slot_after (SwitchMasters unknown_cache example_router [1 \<mapsto> ''10.0.0.1'']) 0
       = Some (slots example_router ! 0)
   \<and> switched (slots example_router ! 0) = False"
proof -
  have j: "0 < MaxSlotNum" by (simp add: MaxSlotNum_def)
  have kb: "keeps_addr unknown_cache (masters_get [1 \<mapsto> ''10.0.0.1''] (backend_id (slots example_router ! 0)))
       (Addr (backend_bc (slots example_router ! 0)))"
    by (simp add: example_router_facts(4) keeps_addr_def masters_get_def Addr_def)
  have km: "keeps_addr unknown_cache (masters_get [1 \<mapsto> ''10.0.0.1''] (migrate_id (slots example_router ! 0)))
       (Addr (migrate_bc (slots example_router ! 0)))"
    by (simp add: example_router_facts(4) keeps_addr_def masters_get_def Addr_def)
  from SwitchMasters_unchanged [OF example_router_facts(1,2) j kb km]
  have "slot_after (SwitchMasters unknown_cache example_router [1 \<mapsto> ''10.0.0.1'']) 0
       = Some (slots example_router ! 0)"
    by (auto simp: slot_after_def)
  with kb show ?thesis by (simp add: example_router_facts(4))
qed

text \<open>
  The claim as stated fails for a new address whose run-id cannot be determined: slot 0
  holds \<open>10.0.0.1\<close> for group 1, the map gives group 1 the address \<open>10.0.0.2\<close>, the cache
  knows no run-id, and the slot is re-filled with the new address and \<open>switched = true\<close>.
\<close>

theorem SwitchMasters_unknown_run_id_counterexample:
  "masters_get [1 \<mapsto> ''10.0.0.2''] (backend_id (slots example_router ! 0)) = ''10.0.0.2''
   \<and> Addr (backend_bc (slots example_router ! 0)) = ''10.0.0.1''
   \<and> GetRunId unknown_cache ''10.0.0.2'' = []
   \<and> switched (slots example_router ! 0) = False
   \<and> slot_after (SwitchMasters unknown_cache example_router [1 \<mapsto> ''10.0.0.2'']) 0
       = Some ((slots example_router ! 0)\<lparr>backend_bc := Some ''10.0.0.2'', switched := True\<rparr>)"
proof -
  have j: "0 < MaxSlotNum" by (simp add: MaxSlotNum_def)
  from SwitchMasters_effect [OF example_router_facts(1,2), of unknown_cache "[1 \<mapsto> ''10.0.0.2'']"]
  obtain s1 where s: "SwitchMasters unknown_cache example_router [1 \<mapsto> ''10.0.0.2''] = Some (None, s1)"
    and sl: "\<forall>j<MaxSlotNum. slots s1 ! j =
       switched_slot (config example_router) unknown_cache [1 \<mapsto> ''10.0.0.2''] (slots example_router ! j)"
    by blast
  have "slots s1 ! 0 = (slots example_router ! 0)\<lparr>backend_bc := Some ''10.0.0.2'', switched := True\<rparr>"
    using sl j
    by (simp add: example_router_facts(3,4) switched_slot_def keeps_slot_def keeps_addr_def
        masters_get_def Addr_def GetRunId_def unknown_cache_def filled_slot_def
        switch_descriptor_def snapshot_def example_config_def)
  with s show ?thesis
    by (simp add: slot_after_def example_router_facts(4) masters_get_def Addr_def GetRunId_def
        unknown_cache_def)
qed

text \<open>
  Claim C2, amended. On an open, well-formed router, \<^verbatim>\<open>SwitchMasters\<close> drains and
  re-fills a slot exactly when, for its backend group or for its migrate-from group, the
  map gives an address that differs from the one the slot holds and whose run-id is
  unknown or differs from the run-id of the current address. The slot then has
  \<open>switched = true\<close>, keeps its forwarding method, and holds the new address for each
  group that needed the switch. In every other case, and so whenever the map gives the
  same address string, whatever the cache reports, the slot is unchanged.
\<close>

theorem SwitchMasters_switches:
  assumes "Router_inv s" and "\<not> closed s" and "j < MaxSlotNum"
  shows "\<exists>s1 evs. SwitchMasters cache s masters = Some (None, s1)
     \<and> trace s1 = trace s @ evs
     \<and> (EvBlockAndWait (int j) \<in> set evs \<longleftrightarrow>
          switch_needed cache (masters_get masters (backend_id (slots s ! j))) (Addr (backend_bc (slots s ! j)))
          \<or> switch_needed cache (masters_get masters (migrate_id (slots s ! j))) (Addr (migrate_bc (slots s ! j))))
     \<and> (if switch_needed cache (masters_get masters (backend_id (slots s ! j))) (Addr (backend_bc (slots s ! j)))
          \<or> switch_needed cache (masters_get masters (migrate_id (slots s ! j))) (Addr (migrate_bc (slots s ! j)))
         then switched (slots s1 ! j)
           \<and> slot_method (slots s1 ! j) = slot_method (slots s ! j)
           \<and> Addr (backend_bc (slots s1 ! j)) =
               (if switch_needed cache (masters_get masters (backend_id (slots s ! j))) (Addr (backend_bc (slots s ! j)))
                then masters_get masters (backend_id (slots s ! j)) else Addr (backend_bc (slots s ! j)))
           \<and> Addr (migrate_bc (slots s1 ! j)) =
               (if switch_needed cache (masters_get masters (migrate_id (slots s ! j))) (Addr (migrate_bc (slots s ! j)))
                then masters_get masters (migrate_id (slots s ! j)) else Addr (migrate_bc (slots s ! j)))
         else slots s1 ! j = slots s ! j)"
proof -
  from SwitchMasters_effect [OF assms(1,2), of cache masters] obtain s1 evs where
    a: "SwitchMasters cache s masters = Some (None, s1)" "trace s1 = trace s @ evs"
    and sl: "\<forall>j<MaxSlotNum. slots s1 ! j = switched_slot (config s) cache masters (slots s ! j)"
    and b: "\<forall>j<MaxSlotNum. EvBlockAndWait (int j) \<in> set evs \<longleftrightarrow> \<not> keeps_slot cache masters (slots s ! j)"
    by blast
  have s1j: "slots s1 ! j = switched_slot (config s) cache masters (slots s ! j)"
    using sl assms(3) by simp
  have bj: "EvBlockAndWait (int j) \<in> set evs \<longleftrightarrow> \<not> keeps_slot cache masters (slots s ! j)"
    using b assms(3) by simp
  show ?thesis
    using a s1j bj
    by (intro exI [of _ s1] exI [of _ evs])
      (simp add: switch_needed_keeps keeps_slot_def switched_slot_def Addr_filled
        switch_descriptor_def)
qed

theorem SwitchMasters_switches_witness:
  "switch_needed failover_cache (masters_get [1 \<mapsto> ''10.0.0.2''] (backend_id (slots example_router ! 0)))
       (Addr (backend_bc (slots example_router ! 0)))
   \<and> map_option switched (slot_after (SwitchMasters failover_cache example_router [1 \<mapsto> ''10.0.0.2'']) 0)
       = Some True
   \<and> map_option (\<lambda>slot. Addr (backend_bc slot))
        (slot_after (SwitchMasters failover_cache example_router [1 \<mapsto> ''10.0.0.2'']) 0)
       = Some ''10.0.0.2''"
proof -
  have j: "0 < MaxSlotNum" by (simp add: MaxSlotNum_def)
  have n: "switch_needed failover_cache (masters_get [1 \<mapsto> ''10.0.0.2''] (backend_id (slots example_router ! 0)))
       (Addr (backend_bc (slots example_router ! 0)))"
    by (simp add: example_router_facts(4) switch_needed_def masters_get_def Addr_def GetRunId_def
        failover_cache_def)
  from SwitchMasters_switches [OF example_router_facts(1,2) j, of failover_cache "[1 \<mapsto> ''10.0.0.2'']"] n
  obtain s1 where "SwitchMasters failover_cache example_router [1 \<mapsto> ''10.0.0.2''] = Some (None, s1)"
    "switched (slots s1 ! 0)"
    "Addr (backend_bc (slots s1 ! 0)) = masters_get [1 \<mapsto> ''10.0.0.2''] (backend_id (slots example_router ! 0))"
    by auto
  with n show ?thesis
    by (simp add: slot_after_def example_router_facts(4) masters_get_def)
qed

text \<open>
  The claim as stated fails: the map gives group 1 the address slot 0 already holds, the
  cache reports a run-id for it, and the slot is not reconfigured; its switched flag
  stays false.
\<close>

theorem SwitchMasters_same_address_counterexample:
  "masters_get [1 \<mapsto> ''10.0.0.1''] (backend_id (slots example_router ! 0))
       = Addr (backend_bc (slots example_router ! 0))
   \<and> GetRunId restarted_cache ''10.0.0.1'' = ''f3a9''
   \<and> switched (slots example_router ! 0) = False
   \<and> slot_after (SwitchMasters restarted_cache example_router [1 \<mapsto> ''10.0.0.1'']) 0
       = Some (slots example_router ! 0)"
proof -
  have j: "0 < MaxSlotNum" by (simp add: MaxSlotNum_def)
  from SwitchMasters_effect [OF example_router_facts(1,2), of restarted_cache "[1 \<mapsto> ''10.0.0.1'']"]
  obtain s1 where s: "SwitchMasters restarted_cache example_router [1 \<mapsto> ''10.0.0.1''] = Some (None, s1)"
    and sl: "\<forall>j<MaxSlotNum. slots s1 ! j =
       switched_slot (config example_router) restarted_cache [1 \<mapsto> ''10.0.0.1''] (slots example_router ! j)"
    by blast
  have "slots s1 ! 0 = slots example_router ! 0"
    using sl j
    by (simp add: example_router_facts(4) switched_slot_def keeps_slot_def keeps_addr_def
        masters_get_def Addr_def)
  with s show ?thesis
    by (simp add: slot_after_def example_router_facts(4) masters_get_def Addr_def GetRunId_def
        restarted_cache_def)
qed

subsection \<open>Dispatch\<close>

text \<open>
  Claim C8. On a well-formed router, dispatch selects the index
  \<open>hash(hashkey) mod 1024\<close>, which is the id of the slot at that index, hands the request
  and the hash key to the forward operation of that slot, returns its error, and stores
  the slot it returns at that index: every other slot, and the rest of the router, is as
  before.
\<close>

theorem dispatch_selects_slot:
  assumes "Router_inv s"
  shows "\<exists>i err slot1.
       i = unat (Hash (getHashKey (Multi r) (OpStr r))) mod MaxSlotNum
     \<and> MaxSlotNum = 1024 \<and> i < MaxSlotNum \<and> slot_id (slots s ! i) = int i
     \<and> forward (slots s ! i) r (getHashKey (Multi r) (OpStr r)) = (err, slot1)
     \<and> dispatch Hash getHashKey forward s r = Some (err, s\<lparr>slots := (slots s)[i := slot1]\<rparr>)
     \<and> (\<forall>j. j \<noteq> i \<longrightarrow> (slots s)[i := slot1] ! j = slots s ! j)"
proof -
  let ?hkey = "getHashKey (Multi r) (OpStr r)"
  let ?i = "unat (Hash ?hkey) mod MaxSlotNum"
  have len: "length (slots s) = MaxSlotNum" using assms by (rule Router_inv_length)
  have i: "?i < MaxSlotNum" by (simp add: MaxSlotNum_def)
  have u: "unat (Hash ?hkey mod of_nat MaxSlotNum) = ?i"
    by (simp add: MaxSlotNum_def unat_mod)
  obtain err slot1 where f: "forward (slots s ! ?i) r ?hkey = (err, slot1)"
    by (cases "forward (slots s ! ?i) r ?hkey")
  have "dispatch Hash getHashKey forward s r = Some (err, s\<lparr>slots := (slots s)[?i := slot1]\<rparr>)"
    using f i len by (simp add: dispatch_def Let_def u)
  with f i Router_inv_slot_id [OF assms i] show ?thesis by (auto simp: MaxSlotNum_def)
qed

theorem dispatch_selects_slot_witness:
  "unat (example_Hash (example_getHashKey (Multi example_request) (OpStr example_request)))
       mod MaxSlotNum = 5
   \<and> dispatch example_Hash example_getHashKey example_forward (NewRouter example_config)
         example_request
       = Some (None, NewRouter example_config)"
proof -
  let ?s = "NewRouter example_config"
  have h: "unat (example_Hash (example_getHashKey (Multi example_request) (OpStr example_request)))
       mod MaxSlotNum = 5"
    by (simp add: example_Hash_def example_getHashKey_def example_request_def NewBulkBytes_def
        MaxSlotNum_def)
  from dispatch_selects_slot [OF NewRouter_inv [of example_config], where Hash = example_Hash
      and getHashKey = example_getHashKey and r = example_request and forward = example_forward]
  obtain i err slot1 where
    i: "i = unat (example_Hash (example_getHashKey (Multi example_request) (OpStr example_request)))
         mod MaxSlotNum"
    and f: "example_forward (slots ?s ! i) example_request
         (example_getHashKey (Multi example_request) (OpStr example_request)) = (err, slot1)"
    and d: "dispatch example_Hash example_getHashKey example_forward ?s example_request
         = Some (err, ?s\<lparr>slots := (slots ?s)[i := slot1]\<rparr>)"
    by blast
  from f have "err = None" "slot1 = slots ?s ! i" by (simp_all add: example_forward_def)
  with d h show ?thesis by simp
qed

end
